(* ===== verification/Prelude.thy ===== *)
theory Prelude
  imports Main "HOL-Library.Word" "HOL-Library.Monad_Syntax"
begin

text \<open>
  Shared vocabulary of the development: machine words and byte strings, Rust's
  \<open>Result\<close> and \<open>Poll\<close>, slice operations with their panics, byte orders and
  the interface of a fixed-width byte codec.

  Conventions. A Rust function that can panic returns \<open>'a option\<close>: \<open>None\<close> is the
  panic. A Rust \<open>Result<T, E>\<close> is the sum \<open>'e + 'a\<close> with \<open>Err\<close> on the left.
  \<open>usize\<close> values are lengths and indices of buffers that exist, so they are \<open>nat\<close>;
  every other integer keeps its width.
\<close>

unbundle bit_operations_syntax

section \<open>Types\<close>

type_synonym u8 = "8 word"
type_synonym u16 = "16 word"
type_synonym u32 = "32 word"
type_synonym u64 = "64 word"
type_synonym bytes = "8 word list"

abbreviation Ok :: "'a \<Rightarrow> 'e + 'a" where
  "Ok \<equiv> Inr"

abbreviation Err :: "'e \<Rightarrow> 'e + 'a" where
  "Err \<equiv> Inl"

datatype 'a poll = Pending | Ready 'a

section \<open>Collections of rewrite rules\<close>

named_theorems consts_simps \<open>numeric constants of the program\<close>
named_theorems slice_simps \<open>slice reads and writes on buffers of known length\<close>
named_theorems token_simps \<open>the token's fields and the message under the tag\<close>

section \<open>Slices\<close>

text \<open>\<open>xs.get(a..b)\<close>; as the indexing \<open>&xs[a..b]\<close> its \<open>None\<close> is a panic.\<close>

definition slice_get :: "'a list \<Rightarrow> nat \<Rightarrow> nat \<Rightarrow> 'a list option" where
  "slice_get xs a b = (if a \<le> b \<and> b \<le> length xs then Some (take (b - a) (drop a xs)) else None)"

text \<open>\<open>xs.get(i)\<close>, also \<open>first()\<close> as index 0.\<close>

definition elem_get :: "'a list \<Rightarrow> nat \<Rightarrow> 'a option" where
  "elem_get xs i = (if i < length xs then Some (xs ! i) else None)"

text \<open>
  \<open>dst[a..b].copy_from_slice(src)\<close>: panics when the range does not fit the destination
  or when the lengths differ.
\<close>

definition copy_into :: "'a list \<Rightarrow> nat \<Rightarrow> nat \<Rightarrow> 'a list \<Rightarrow> 'a list option" where
  "copy_into dst a b src =
     (if a \<le> b \<and> b \<le> length dst \<and> length src = b - a
      then Some (take a dst @ src @ drop b dst) else None)"

text \<open>
  What a callee that is handed \<open>&mut [T]\<close> can do to it: write its elements in place. The
  length of the destination never changes.
\<close>

definition overwrite :: "'a list \<Rightarrow> 'a list \<Rightarrow> 'a list" where
  "overwrite dst src = take (length dst) src @ drop (length src) dst"

text \<open>\<open>xs.chunks(n)\<close> for \<open>n > 0\<close>: consecutive runs of \<open>n\<close>, the last one shorter.\<close>

function chunks :: "nat \<Rightarrow> 'a list \<Rightarrow> 'a list list" where
  "chunks n xs = (if n = 0 \<or> xs = [] then [] else take n xs # chunks n (drop n xs))"
  by pat_completeness auto
termination
  by (relation "measure (\<lambda>(n, xs). length xs)") auto

declare chunks.simps [simp del]

section \<open>Byte orders\<close>

text \<open>The \<open>n\<close> low bytes of a word, least significant first, and back.\<close>

primrec le_bytes :: "nat \<Rightarrow> 'a::len word \<Rightarrow> bytes" where
  "le_bytes 0 w = []"
| "le_bytes (Suc n) w = ucast w # le_bytes n (drop_bit 8 w)"

primrec from_le_bytes :: "bytes \<Rightarrow> 'a::len word" where
  "from_le_bytes [] = 0"
| "from_le_bytes (b # bs) = ucast b OR push_bit 8 (from_le_bytes bs)"

definition be_bytes :: "nat \<Rightarrow> 'a::len word \<Rightarrow> bytes" where
  "be_bytes n w = rev (le_bytes n w)"

definition from_be_bytes :: "bytes \<Rightarrow> 'a::len word" where
  "from_be_bytes bs = from_le_bytes (rev bs)"

section \<open>Polls\<close>

lemma poll_result_cases:
  obtains (pending) "p = Pending" | (failed) e where "p = Ready (Inl e)"
  | (ready) x where "p = Ready (Inr x)"
proof (cases p)
  case Pending
  then show thesis by (rule pending)
next
  case (Ready r)
  then show thesis using failed ready by (cases r) simp_all
qed

section \<open>Loops\<close>

text \<open>
  A source loop is a turn \<open>step\<close> from the loop's variables to either the value the loop
  ends with (left) or the variables of the next turn (right); \<open>None\<close> is a turn that does not
  return. \<open>iterate\<close> runs turns until one ends; its \<open>None\<close> is a loop that does not return.
\<close>

partial_function (option) iterate :: "('s \<Rightarrow> ('o + 's) option) \<Rightarrow> 's \<Rightarrow> 'o option" where
  "iterate step s = do {
     r \<leftarrow> step s;
     (case r of Inl out \<Rightarrow> Some out | Inr s' \<Rightarrow> iterate step s')
   }"

declare iterate.simps [code]

text \<open>Partial correctness: an invariant of the turns and a postcondition that steps back.\<close>

lemma iterate_rule [consumes 2, case_names stop again]:
  assumes ret: "iterate step s = Some out" and "invar s"
    and stop: "\<And>s out. invar s \<Longrightarrow> step s = Some (Inl out) \<Longrightarrow> Q s out"
    and again: "\<And>s s'. invar s \<Longrightarrow> step s = Some (Inr s') \<Longrightarrow>
      invar s' \<and> (\<forall>out. Q s' out \<longrightarrow> Q s out)"
  shows "Q s out"
proof -
  let ?P = "\<lambda>st s out. st = step \<longrightarrow> invar s \<longrightarrow> Q s out"
  have "?P step s out"
  proof (rule iterate.raw_induct [where P = ?P, OF _ ret], intro impI)
    fix self st and s out
    assume IH: "\<And>st s out. self st s = Some out \<Longrightarrow> st = step \<longrightarrow> invar s \<longrightarrow> Q s out"
      and eq: "(st s \<bind> (\<lambda>r. case r of Inl out \<Rightarrow> Some out | Inr s' \<Rightarrow> self st s')) = Some out"
      and st: "st = step" and I: "invar s"
    obtain r where r: "step s = Some r" using eq st by (auto simp: bind_eq_Some_conv)
    show "Q s out"
    proof (cases r)
      case (Inl out1)
      then show ?thesis using stop [OF I] eq r st by simp
    next
      case (Inr s1)
      then show ?thesis using again [OF I] IH [of st s1 out] eq r st by simp
    qed
  qed
  then show ?thesis using \<open>invar s\<close> by simp
qed

text \<open>Total correctness: every turn returns and, when it goes on, decreases a measure.\<close>

lemma iterate_returns:
  assumes "invar s"
    and turn: "\<And>s. invar s \<Longrightarrow> \<exists>r. step s = Some r \<and> (\<forall>s'. r = Inr s' \<longrightarrow> invar s' \<and> m s' < (m s :: nat))"
  shows "\<exists>out. iterate step s = Some out"
  using assms(1)
proof (induction "m s" arbitrary: s rule: less_induct)
  case less
  obtain r where r: "step s = Some r" "\<And>s'. r = Inr s' \<Longrightarrow> invar s' \<and> m s' < m s"
    using turn [OF less.prems] by blast
  show ?case
  proof (cases r)
    case (Inl out)
    then show ?thesis using r by (simp add: iterate.simps)
  next
    case (Inr s')
    then show ?thesis using r less(1) [of s'] by (simp add: iterate.simps [of step s])
  qed
qed

text \<open>Divergence: turns that always go on never return.\<close>

lemma iterate_diverges:
  assumes "invar s" and "\<And>s. invar s \<Longrightarrow> \<exists>s'. step s = Some (Inr s') \<and> invar s'"
  shows "iterate step s = None"
proof (rule ccontr)
  assume "iterate step s \<noteq> None"
  then obtain out where "iterate step s = Some out" by auto
  then have False
    using assms(1)
  proof (induction rule: iterate_rule [where Q = "\<lambda>_ _. False"])
    case (stop s out)
    then show ?case using assms(2) by fastforce
  next
    case (again s s')
    then show ?case using assms(2) by fastforce
  qed
  then show False .
qed

section \<open>Transition systems\<close>

text \<open>
  The interface of a program given by its steps: an invariant holds at the start and every step
  keeps it. An extension adds the contract of a program that has been told to stop: from then on
  every step uses up some of what is \<open>left\<close> and nothing is added to what will have been \<open>spent\<close>.
\<close>

locale transition_system =
  fixes step :: "'s \<Rightarrow> 's \<Rightarrow> bool" and start :: 's and invar :: "'s \<Rightarrow> bool"
  assumes invar_start: "invar start"
    and invar_step: "invar s \<Longrightarrow> step s s' \<Longrightarrow> invar s'"
begin

lemma reachable_invar: "step\<^sup>*\<^sup>* start s \<Longrightarrow> invar s"
  by (induction rule: rtranclp_induct) (auto intro: invar_start invar_step)

end

locale stopping_system = transition_system +
  fixes stopped :: "'s \<Rightarrow> bool" and left spent :: "'s \<Rightarrow> nat"
  assumes stopped_step: "invar s \<Longrightarrow> stopped s \<Longrightarrow> step s s' \<Longrightarrow> stopped s' \<and> left s' < left s \<and> spent s' \<le> spent s"
begin

lemma stopped_run:
  assumes "invar s" and "stopped s" and "(step ^^ n) s s'"
  shows "invar s' \<and> stopped s' \<and> n + left s' \<le> left s \<and> spent s' \<le> spent s"
  using assms(3)
proof (induction n arbitrary: s')
  case 0
  then show ?case using assms(1,2) by simp
next
  case (Suc n)
  then obtain s1 where s1: "(step ^^ n) s s1" "step s1 s'" by auto
  then show ?case using Suc.IH [OF s1(1)] stopped_step [of s1 s'] invar_step [of s1 s'] by fastforce
qed

end

section \<open>Slice lemmas\<close>

lemma slice_get_append_mid [slice_simps]:
  "length xs = a \<Longrightarrow> length xs + length ys = b \<Longrightarrow> slice_get (xs @ ys @ zs) a b = Some ys"
  by (auto simp: slice_get_def)

lemma slice_get_prefix [slice_simps]:
  "length ys = b \<Longrightarrow> slice_get (ys @ zs) 0 b = Some ys"
  by (auto simp: slice_get_def)

lemma slice_get_all [slice_simps]: "length ys = b \<Longrightarrow> slice_get ys 0 b = Some ys"
  by (simp add: slice_get_def)

lemma slice_get_length: "slice_get xs a b = Some ys \<Longrightarrow> length ys = b - a"
  by (auto simp: slice_get_def split: if_splits)

lemma slice_get_Some_iff: "(\<exists>ys. slice_get xs a b = Some ys) \<longleftrightarrow> a \<le> b \<and> b \<le> length xs"
  by (simp add: slice_get_def)

lemma slice_get_split:
  "slice_get xs a b = Some ys \<longleftrightarrow>
     a \<le> b \<and> (\<exists>us vs. xs = us @ ys @ vs \<and> length us = a \<and> length ys = b - a)"
proof
  assume h: "slice_get xs a b = Some ys"
  then have le: "a \<le> b" "b \<le> length xs" and ys: "ys = take (b - a) (drop a xs)"
    by (auto simp: slice_get_def split: if_splits)
  have "xs = take a xs @ ys @ drop (b - a) (drop a xs)"
    unfolding ys by (metis append_take_drop_id)
  moreover have "length (take a xs) = a" and "length ys = b - a"
    using le ys by auto
  ultimately show "a \<le> b \<and> (\<exists>us vs. xs = us @ ys @ vs \<and> length us = a \<and> length ys = b - a)"
    using le by blast
next
  assume "a \<le> b \<and> (\<exists>us vs. xs = us @ ys @ vs \<and> length us = a \<and> length ys = b - a)"
  then show "slice_get xs a b = Some ys"
    by (auto simp: slice_get_def)
qed

lemma copy_into_length: "copy_into dst a b src = Some dst' \<Longrightarrow> length dst' = length dst"
  by (auto simp: copy_into_def split: if_splits)

lemma copy_into_Some_iff:
  "(\<exists>d. copy_into dst a b src = Some d) \<longleftrightarrow> a \<le> b \<and> b \<le> length dst \<and> length src = b - a"
  by (simp add: copy_into_def)

lemma length_overwrite [simp]: "length (overwrite dst src) = length dst"
  by (simp add: overwrite_def)

lemma overwrite_same_length: "length src = length dst \<Longrightarrow> overwrite dst src = src"
  by (simp add: overwrite_def)

lemma chunks_Nil [simp]: "chunks n [] = []"
  by (simp add: chunks.simps)

lemma chunks_step: "0 < n \<Longrightarrow> xs \<noteq> [] \<Longrightarrow> chunks n xs = take n xs # chunks n (drop n xs)"
  by (subst chunks.simps) simp

lemma concat_chunks: "0 < n \<Longrightarrow> concat (chunks n xs) = xs"
proof (induction n xs rule: chunks.induct)
  case (1 n xs)
  then show ?case
    by (cases "xs = []") (simp_all add: chunks_step)
qed

lemma chunks_lengths: "0 < n \<Longrightarrow> c \<in> set (chunks n xs) \<Longrightarrow> 0 < length c \<and> length c \<le> n"
proof (induction n xs rule: chunks.induct)
  case (1 n xs)
  show ?case
  proof (cases "xs = []")
    case True
    with "1.prems" show ?thesis by simp
  next
    case False
    with "1.prems" have "c = take n xs \<or> c \<in> set (chunks n (drop n xs))"
      by (simp add: chunks_step)
    then show ?thesis
      using "1.IH" "1.prems" False by auto
  qed
qed

section \<open>Byte order lemmas\<close>

lemma xor_eq_zero_iff [simp]: "(x :: 'a::len word) XOR y = 0 \<longleftrightarrow> x = y"
  by (auto simp: bit_eq_iff bit_simps)

lemma length_le_bytes [simp]: "length (le_bytes n w) = n"
  by (induction n arbitrary: w) auto

lemma length_be_bytes [simp]: "length (be_bytes n w) = n"
  by (simp add: be_bytes_def)

lemma from_le_bytes_le_bytes: "from_le_bytes (le_bytes n w) = take_bit (8 * n) w"
proof (induction n arbitrary: w)
  case 0
  then show ?case by simp
next
  case (Suc n)
  show ?case
    by (rule bit_word_eqI) (auto simp: Suc.IH bit_simps)
qed

lemma le_bytes_take_bit: "8 * n \<le> m \<Longrightarrow> le_bytes n (take_bit m w) = le_bytes n w"
proof (induction n arbitrary: w m)
  case 0
  then show ?case by simp
next
  case (Suc n)
  have low: "(ucast (take_bit m w) :: u8) = ucast w"
    using Suc.prems by (intro bit_word_eqI) (auto simp: bit_simps)
  have "drop_bit 8 (take_bit m w) = take_bit (m - 8) (drop_bit 8 w)"
    by (simp add: drop_bit_take_bit)
  with low Suc show ?case by simp
qed

lemma le_bytes_from_le_bytes:
  "8 * length bs \<le> LENGTH('a) \<Longrightarrow> le_bytes (length bs) (from_le_bytes bs :: 'a::len word) = bs"
proof (induction bs)
  case Nil
  then show ?case by simp
next
  case (Cons b bs)
  have low: "ucast (ucast b OR push_bit 8 (from_le_bytes bs) :: 'a word) = b"
    using Cons.prems by (intro bit_word_eqI) (auto simp: bit_simps)
  have high: "le_bytes (length bs) (drop_bit 8 (ucast b OR push_bit 8 (from_le_bytes bs) :: 'a word))
      = le_bytes (length bs) (take_bit (LENGTH('a) - 8) (from_le_bytes bs :: 'a word))"
    by (rule arg_cong [where f = "le_bytes _"], rule bit_word_eqI)
      (auto simp: bit_simps dest: bit_imp_le_length)
  show ?case
    using low high Cons by (simp add: le_bytes_take_bit)
qed

text \<open>The big-endian decoder of an \<open>n\<close>-byte field: it accepts exactly \<open>n\<close> bytes.\<close>

definition be_decode :: "nat \<Rightarrow> bytes \<Rightarrow> 'a::len word option" where
  "be_decode n bs = (if length bs = n then Some (from_be_bytes bs) else None)"

lemma from_be_bytes_be_bytes:
  "8 * n = LENGTH('a) \<Longrightarrow> from_be_bytes (be_bytes n (w :: 'a::len word)) = w"
  by (simp add: from_be_bytes_def be_bytes_def from_le_bytes_le_bytes)

lemma be_bytes_from_be_bytes:
  "8 * length bs = LENGTH('a) \<Longrightarrow> be_bytes (length bs) (from_be_bytes bs :: 'a::len word) = bs"
  using le_bytes_from_le_bytes [of "rev bs", where 'a = 'a]
  by (simp add: from_be_bytes_def be_bytes_def)

section \<open>The interface of a fixed-width byte codec\<close>

text \<open>
  Every field of the token and of the message under the tag is a value written in a fixed
  number of bytes. What the clients of such a field rely on: the width, that decoding
  inverts encoding, and that only encodings decode.
\<close>

locale codec =
  fixes width :: nat
    and enc :: "'a \<Rightarrow> bytes"
    and dec :: "bytes \<Rightarrow> 'a option"
  assumes enc_length: "length (enc x) = width"
    and dec_enc: "dec (enc x) = Some x"
    and dec_SomeD: "dec bs = Some x \<Longrightarrow> bs = enc x"
begin

lemma enc_inject: "enc x = enc y \<longleftrightarrow> x = y"
  using dec_enc by (metis option.inject)

lemma dec_iff: "dec bs = Some x \<longleftrightarrow> bs = enc x"
  using dec_enc dec_SomeD by blast

lemma dec_wrong_width: "length bs \<noteq> width \<Longrightarrow> dec bs = None"
  using dec_SomeD enc_length by (cases "dec bs") auto

lemma enc_append_inject: "enc x @ us = enc y @ vs \<longleftrightarrow> x = y \<and> us = vs"
  using enc_length by (simp add: append_eq_append_conv enc_inject)

lemma enc_append_inject2:
  "length us = length vs \<Longrightarrow> us @ enc x = vs @ enc y \<longleftrightarrow> us = vs \<and> x = y"
  by (simp add: enc_inject)

lemma slice_enc: "length us = a \<Longrightarrow> a + width = b \<Longrightarrow> slice_get (us @ enc x @ vs) a b = Some (enc x)"
  by (simp add: slice_get_append_mid enc_length)

end

lemma be_codec:
  "8 * n = LENGTH('a) \<Longrightarrow> codec n (be_bytes n :: 'a::len word \<Rightarrow> bytes) (be_decode n)"
  by unfold_locales
    (auto simp: be_decode_def from_be_bytes_be_bytes be_bytes_from_be_bytes split: if_splits)

interpretation be16: codec 2 "be_bytes 2 :: u16 \<Rightarrow> bytes" "be_decode 2"
  by (rule be_codec) simp

interpretation be32: codec 4 "be_bytes 4 :: u32 \<Rightarrow> bytes" "be_decode 4"
  by (rule be_codec) simp

interpretation be64: codec 8 "be_bytes 8 :: u64 \<Rightarrow> bytes" "be_decode 8"
  by (rule be_codec) simp

end
