(* ===== verification/Net_Addr.thy ===== *)
theory Net_Addr
  imports Prelude
begin

text \<open>
  The part of \<open>std::net\<close> the program uses: IPv4 addresses by their octets, the address sum
  \<open>IpAddr\<close>, and socket addresses, of which the code reads \<open>ip()\<close> and \<open>is_ipv4()\<close>.
\<close>

datatype Ipv4Addr = Ipv4Addr u8 u8 u8 u8

datatype IpAddr = V4 Ipv4Addr | V6 "128 word"

record SocketAddr =
  ip :: IpAddr
  port :: u16

primrec octets :: "Ipv4Addr \<Rightarrow> bytes" where
  "octets (Ipv4Addr a b c d) = [a, b, c, d]"

fun from_octets :: "bytes \<Rightarrow> Ipv4Addr option" where
  "from_octets [a, b, c, d] = Some (Ipv4Addr a b c d)"
| "from_octets _ = None"

definition UNSPECIFIED :: Ipv4Addr where
  "UNSPECIFIED = Ipv4Addr 0 0 0 0"

definition LOCALHOST :: Ipv4Addr where
  "LOCALHOST = Ipv4Addr 127 0 0 1"

definition is_unspecified :: "Ipv4Addr \<Rightarrow> bool" where
  "is_unspecified a \<longleftrightarrow> octets a = [0, 0, 0, 0]"

fun is_ipv4 :: "SocketAddr \<Rightarrow> bool" where
  "is_ipv4 a = (case ip a of V4 _ \<Rightarrow> True | V6 _ \<Rightarrow> False)"

fun_cases from_octets_SomeE: "from_octets bs = Some a"

lemma is_unspecified_iff: "is_unspecified a \<longleftrightarrow> a = UNSPECIFIED"
  by (cases a) (simp add: is_unspecified_def UNSPECIFIED_def)

interpretation ipv4: codec 4 octets from_octets
proof
  show "length (octets a) = 4" for a by (cases a) simp
  show "from_octets (octets a) = Some a" for a by (cases a) simp
  show "bs = octets a" if "from_octets bs = Some a" for bs a
    using that by (elim from_octets_SomeE) auto
qed

lemmas length_octets [simp] = ipv4.enc_length
lemmas octets_inject [simp] = ipv4.enc_inject

end
