(* ===== verification/Auth_Token.thy ===== *)
theory Auth_Token
  imports Net_Addr
begin

text \<open>
  The authentication token of \<open>src/auth.rs\<close>: its layout, the directions and their keys,
  the tag, minting and verification, in the order of the source. AES-128 (the \<open>aes\<close>
  crate) is the parameter \<open>aes key block\<close>, the contents \<open>encrypt_block\<close> writes into
  the 16-byte array it is handed; the random generator (the \<open>rand\<close> crate) is the
  parameter \<open>rng n g\<close>, the bytes \<open>fill_bytes\<close> writes into an \<open>n\<close>-byte buffer and
  the generator's next state. Neither can change the length of its buffer, which
  \<open>overwrite\<close> keeps.
\<close>

section \<open>Layout constants\<close>

definition TOKEN_LEN :: nat where [consts_simps]: "TOKEN_LEN = 20"
definition SELECTOR_LEN :: nat where [consts_simps]: "SELECTOR_LEN = 2"
definition NONCE_LEN :: nat where [consts_simps]: "NONCE_LEN = 8"
definition TAG_LEN :: nat where [consts_simps]: "TAG_LEN = 10"
definition AES_BLOCK_LEN :: nat where [consts_simps]: "AES_BLOCK_LEN = 16"

definition SELECTOR_RANGE :: "nat \<times> nat" where
  [consts_simps]: "SELECTOR_RANGE = (0, SELECTOR_LEN)"
definition NONCE_RANGE :: "nat \<times> nat" where
  [consts_simps]: "NONCE_RANGE = (SELECTOR_LEN, SELECTOR_LEN + NONCE_LEN)"
definition TAG_RANGE :: "nat \<times> nat" where
  [consts_simps]: "TAG_RANGE = (SELECTOR_LEN + NONCE_LEN, TOKEN_LEN)"

section \<open>Keys, peers and directions\<close>

definition F_AB :: bytes where
  "F_AB = [0xa0, 0xb1, 0xc2, 0xd3, 0xe4, 0xf5, 0x06, 0x17,
           0x28, 0x39, 0x4a, 0x5b, 0x6c, 0x7d, 0x8e, 0x9f]"

definition F_BA :: bytes where
  "F_BA = [0x5f, 0x4e, 0x3d, 0x2c, 0x1b, 0x0a, 0xf9, 0xe8,
           0xd7, 0xc6, 0xb5, 0xa4, 0x93, 0x82, 0x71, 0x60]"

record Peers =
  client :: Ipv4Addr
  server :: Ipv4Addr

datatype Direction = ClientToServer | ServerToClient

fun selector :: "Direction \<Rightarrow> u16" where
  "selector ClientToServer = 0x0001"
| "selector ServerToClient = 0x0002"

fun key :: "Direction \<Rightarrow> bytes" where
  "key ClientToServer = F_AB"
| "key ServerToClient = F_BA"

definition from_selector :: "u16 \<Rightarrow> Direction option" where
  "from_selector s =
     (if s = 0x0001 then Some ClientToServer
      else if s = 0x0002 then Some ServerToClient
      else None)"

fun path :: "Direction \<Rightarrow> Peers \<Rightarrow> Ipv4Addr \<times> Ipv4Addr" where
  "path ClientToServer peers = (client peers, server peers)"
| "path ServerToClient peers = (server peers, client peers)"

datatype AuthError =
    BadLength nat
  | UnknownSelector u16
  | WrongDirection
  | BadTag
  | NotQuic
  | NotIpv4 IpAddr

section \<open>The tag\<close>

type_synonym block_cipher = "bytes \<Rightarrow> bytes \<Rightarrow> bytes"
type_synonym 'g rng = "nat \<Rightarrow> 'g \<Rightarrow> bytes \<times> 'g"

definition encrypt_block :: "block_cipher \<Rightarrow> bytes \<Rightarrow> bytes \<Rightarrow> bytes" where
  "encrypt_block aes k block = overwrite block (aes k block)"

definition tag ::
  "block_cipher \<Rightarrow> bytes \<Rightarrow> bytes \<Rightarrow> Ipv4Addr \<Rightarrow> Ipv4Addr \<Rightarrow> bytes option" where
  "tag aes k nonce src dst = do {
     let message = replicate AES_BLOCK_LEN 0;
     message \<leftarrow> copy_into message 0 NONCE_LEN nonce;
     message \<leftarrow> copy_into message NONCE_LEN (NONCE_LEN + 4) (octets src);
     message \<leftarrow> copy_into message (NONCE_LEN + 4) (length message) (octets dst);
     let block = encrypt_block aes k message;
     truncated \<leftarrow> slice_get block 0 TAG_LEN;
     copy_into (replicate TAG_LEN 0) 0 TAG_LEN truncated
   }"

section \<open>Minting\<close>

definition assemble ::
  "block_cipher \<Rightarrow> Direction \<Rightarrow> bytes \<Rightarrow> Ipv4Addr \<Rightarrow> Ipv4Addr \<Rightarrow> bytes option" where
  "assemble aes direction nonce src dst = do {
     let token = replicate TOKEN_LEN 0;
     token \<leftarrow> copy_into token (fst SELECTOR_RANGE) (snd SELECTOR_RANGE)
                (be_bytes 2 (selector direction));
     token \<leftarrow> copy_into token (fst NONCE_RANGE) (snd NONCE_RANGE) nonce;
     t \<leftarrow> tag aes (key direction) nonce src dst;
     copy_into token (fst TAG_RANGE) (snd TAG_RANGE) t
   }"

definition mint_between ::
  "'g rng \<Rightarrow> block_cipher \<Rightarrow> Direction \<Rightarrow> Ipv4Addr \<Rightarrow> Ipv4Addr \<Rightarrow> 'g \<Rightarrow> (bytes \<times> 'g) option" where
  "mint_between rng aes direction src dst g =
     (let (filled, g') = rng NONCE_LEN g;
          nonce = overwrite (replicate NONCE_LEN 0) filled
      in map_option (\<lambda>token. (token, g')) (assemble aes direction nonce src dst))"

definition mint ::
  "'g rng \<Rightarrow> block_cipher \<Rightarrow> Direction \<Rightarrow> Peers \<Rightarrow> 'g \<Rightarrow> (bytes \<times> 'g) option" where
  "mint rng aes direction peers g =
     (let (src, dst) = path direction peers in mint_between rng aes direction src dst g)"

section \<open>Verification\<close>

definition constant_time_eq :: "bytes \<Rightarrow> bytes \<Rightarrow> bool" where
  "constant_time_eq a b =
     (if length a \<noteq> length b then False
      else foldl (\<lambda>acc (x, y). acc OR (x XOR y)) 0 (zip a b) = 0)"

definition verify ::
  "block_cipher \<Rightarrow> bytes \<Rightarrow> Direction \<Rightarrow> Ipv4Addr \<Rightarrow> Ipv4Addr \<Rightarrow> (AuthError + unit) option" where
  "verify aes token direction src dst =
     (if length token \<noteq> TOKEN_LEN then Some (Err (BadLength (length token)))
      else case (slice_get token (fst SELECTOR_RANGE) (snd SELECTOR_RANGE),
                 slice_get token (fst NONCE_RANGE) (snd NONCE_RANGE),
                 slice_get token (fst TAG_RANGE) (snd TAG_RANGE)) of
        (Some sel, Some nonce, Some claimed) \<Rightarrow> do {
          s0 \<leftarrow> elem_get sel 0;
          s1 \<leftarrow> elem_get sel 1;
          let s = from_be_bytes [s0, s1];
          (case from_selector s of
             None \<Rightarrow> Some (Err (UnknownSelector s))
           | Some found \<Rightarrow>
               if found \<noteq> direction then Some (Err WrongDirection)
               else do {
                 expected \<leftarrow> tag aes (key direction) nonce src dst;
                 Some (if constant_time_eq claimed expected then Ok () else Err BadTag)
               })
        }
      | _ \<Rightarrow> Some (Err (BadLength (length token))))"

section \<open>Reference definitions\<close>

text \<open>
  The format the module documentation gives: the authenticated message
  \<open>M = nonce || src || dst\<close>, \<open>tag = Trunc80(AES(F, M))\<close> and the token
  \<open>selector || nonce || tag\<close>.
\<close>

definition tag_message :: "bytes \<Rightarrow> Ipv4Addr \<Rightarrow> Ipv4Addr \<Rightarrow> bytes" where
  "tag_message nonce src dst = nonce @ octets src @ octets dst"

definition trunc80 :: "block_cipher \<Rightarrow> bytes \<Rightarrow> bytes \<Rightarrow> bytes" where
  "trunc80 aes k m = take 10 (encrypt_block aes k m)"

definition token_format ::
  "block_cipher \<Rightarrow> Direction \<Rightarrow> bytes \<Rightarrow> Ipv4Addr \<Rightarrow> Ipv4Addr \<Rightarrow> bytes" where
  "token_format aes d nonce src dst =
     be_bytes 2 (selector d) @ nonce @ trunc80 aes (key d) (tag_message nonce src dst)"

text \<open>Verification as one would specify it: the fields by position, the tags compared outright.\<close>

definition verify_ref ::
  "block_cipher \<Rightarrow> bytes \<Rightarrow> Direction \<Rightarrow> Ipv4Addr \<Rightarrow> Ipv4Addr \<Rightarrow> AuthError + unit" where
  "verify_ref aes token d src dst =
     (if length token \<noteq> 20 then Err (BadLength (length token))
      else let s = from_be_bytes (take 2 token) in
        if s \<noteq> selector ClientToServer \<and> s \<noteq> selector ServerToClient then Err (UnknownSelector s)
        else if s \<noteq> selector d then Err WrongDirection
        else if drop 10 token = trunc80 aes (key d) (tag_message (take 8 (drop 2 token)) src dst)
        then Ok () else Err BadTag)"

section \<open>Lemmas\<close>

lemma length_encrypt_block [simp]: "length (encrypt_block aes k block) = length block"
  by (simp add: encrypt_block_def)

lemma length_trunc80 [simp]: "length m = 16 \<Longrightarrow> length (trunc80 aes k m) = 10"
  by (simp add: trunc80_def)

lemma length_tag_message [simp]: "length (tag_message n s d) = length n + 8"
  by (simp add: tag_message_def)

lemma length_key [simp]: "length (key d) = 16"
  by (cases d) (simp_all add: F_AB_def F_BA_def)

lemma tag_eq [token_simps]:
  "length nonce = 8 \<Longrightarrow> tag aes k nonce src dst = Some (trunc80 aes k (tag_message nonce src dst))"
  by (simp add: tag_def consts_simps copy_into_def slice_get_def trunc80_def tag_message_def
      Option.bind_eq_Some_conv Let_def)

lemma tag_panics: "length nonce \<noteq> 8 \<Longrightarrow> tag aes k nonce src dst = None"
  by (simp add: tag_def consts_simps copy_into_def)

lemma assemble_eq [token_simps]:
  "length nonce = 8 \<Longrightarrow> assemble aes d nonce src dst = Some (token_format aes d nonce src dst)"
  by (simp add: assemble_def tag_eq consts_simps copy_into_def token_format_def Let_def)

lemma length_token_format [simp]:
  "length nonce = 8 \<Longrightarrow> length (token_format aes d nonce src dst) = 20"
  by (simp add: token_format_def)

lemma tag_message_inject:
  "length n = length n' \<Longrightarrow>
     tag_message n s d = tag_message n' s' d' \<longleftrightarrow> n = n' \<and> s = s' \<and> d = d'"
  by (simp add: tag_message_def)

text \<open>The fold that ORs all differences together is zero only when there are none.\<close>

lemma fold_or_zero_iff:
  "foldl (\<lambda>acc (x, y). acc OR (x XOR y)) acc ps = (0 :: u8) \<longleftrightarrow>
     acc = 0 \<and> (\<forall>(x, y) \<in> set ps. x = y)"
proof (induction ps arbitrary: acc)
  case Nil
  then show ?case by simp
next
  case (Cons p ps)
  obtain x y where "p = (x, y)" by (cases p)
  with Cons show ?case
    by (auto simp: or_eq_0_iff)
qed

lemma zip_all_eq_iff:
  "length a = length b \<Longrightarrow> (\<forall>(x, y) \<in> set (zip a b). x = y) \<longleftrightarrow> a = b"
  by (induction a b rule: list_induct2) auto

lemma constant_time_eq_iff [simp]: "constant_time_eq a b \<longleftrightarrow> a = b"
  by (auto simp: constant_time_eq_def fold_or_zero_iff zip_all_eq_iff zip_same)

lemma selector_inject [simp]: "selector d = selector d' \<longleftrightarrow> d = d'"
  by (cases d; cases d') simp_all

lemma from_selector_selector [simp]: "from_selector (selector d) = Some d"
  by (cases d) (simp_all add: from_selector_def)

lemma from_selector_Some_iff: "from_selector s = Some d \<longleftrightarrow> s = selector d"
  by (cases d) (auto simp: from_selector_def)

lemma from_selector_None_iff:
  "from_selector s = None \<longleftrightarrow> s \<noteq> selector ClientToServer \<and> s \<noteq> selector ServerToClient"
  by (simp add: from_selector_def)

text \<open>The selector field is a two-byte codec of directions, over the big-endian \<open>u16\<close> codec.\<close>

definition selector_decode :: "bytes \<Rightarrow> Direction option" where
  "selector_decode bs = Option.bind (be_decode 2 bs) from_selector"

interpretation sel: codec 2 "\<lambda>d. be_bytes 2 (selector d)" selector_decode
proof
  show "length (be_bytes 2 (selector d)) = 2" for d by simp
  show "selector_decode (be_bytes 2 (selector d)) = Some d" for d
    by (simp add: selector_decode_def be16.dec_enc)
  show "bs = be_bytes 2 (selector d)" if "selector_decode bs = Some d" for bs d
    using that
    by (auto simp: selector_decode_def bind_eq_Some_conv be16.dec_iff from_selector_Some_iff)
qed

text \<open>A 20-byte token splits into its three fields.\<close>

lemma token_fields:
  assumes "length t = 20"
  shows "t = take 2 t @ take 8 (drop 2 t) @ drop 10 t"
  using append_take_drop_id [of 8 "drop 2 t"] by simp

lemma two_bytes: "length bs = 2 \<Longrightarrow> [bs ! 0, bs ! Suc 0] = bs"
  by (auto simp: length_Suc_conv numeral_2_eq_2)

lemma take_two: "length t = 20 \<Longrightarrow> [t ! 0, t ! Suc 0] = take 2 t"
  using two_bytes [of "take 2 t"] by simp

text \<open>\<open>verify\<close> never panics and computes the reference verdict.\<close>

lemma verify_eq_ref: "verify aes t d src dst = Some (verify_ref aes t d src dst)"
proof (cases "length t = 20")
  case False
  then show ?thesis by (simp add: verify_def verify_ref_def consts_simps)
next
  case True
  define s :: u16 where "s = from_be_bytes (take 2 t)"
  have sel: "elem_get (take 2 t) 0 = Some (t ! 0)" "elem_get (take 2 t) 1 = Some (t ! 1)"
    using True by (simp_all add: elem_get_def)
  have "verify aes t d src dst =
     (case from_selector s of None \<Rightarrow> Some (Err (UnknownSelector s))
      | Some found \<Rightarrow> if found \<noteq> d then Some (Err WrongDirection)
          else Some (if drop 10 t = trunc80 aes (key d) (tag_message (take 8 (drop 2 t)) src dst)
                     then Ok () else Err BadTag))"
    using True sel
    by (simp add: verify_def consts_simps slice_get_def tag_eq s_def take_two Let_def
        split: option.split)
  also have "\<dots> = Some (verify_ref aes t d src dst)"
    using True by (cases d) (auto simp: verify_ref_def s_def [symmetric] from_selector_def Let_def)
  finally show ?thesis .
qed

lemma verify_Ok_iff:
  "verify aes t d src dst = Some (Ok ()) \<longleftrightarrow>
     (\<exists>nonce. length nonce = 8 \<and> t = token_format aes d nonce src dst)"
proof
  assume "verify aes t d src dst = Some (Ok ())"
  then have len: "length t = 20" and s: "from_be_bytes (take 2 t) = selector d"
    and tg: "drop 10 t = trunc80 aes (key d) (tag_message (take 8 (drop 2 t)) src dst)"
    by (auto simp: verify_eq_ref verify_ref_def Let_def split: if_splits)
  have "take 2 t = be_bytes 2 (selector d)"
    using be_bytes_from_be_bytes [of "take 2 t", where 'a = 16] s len by simp
  then have "t = token_format aes d (take 8 (drop 2 t)) src dst"
    using token_fields [OF len] tg by (simp add: token_format_def)
  moreover have "length (take 8 (drop 2 t)) = 8" using len by simp
  ultimately show "\<exists>nonce. length nonce = 8 \<and> t = token_format aes d nonce src dst" by blast
next
  assume "\<exists>nonce. length nonce = 8 \<and> t = token_format aes d nonce src dst"
  then obtain nonce where n: "length nonce = 8" and t: "t = token_format aes d nonce src dst"
    by blast
  have "take 2 t = be_bytes 2 (selector d)" "take 8 (drop 2 t) = nonce"
    "drop 10 t = trunc80 aes (key d) (tag_message nonce src dst)"
    using n by (simp_all add: t token_format_def)
  then show "verify aes t d src dst = Some (Ok ())"
    using n by (cases d) (simp_all add: verify_eq_ref verify_ref_def t from_be_bytes_be_bytes)
qed

section \<open>The interface of a token scheme\<close>

text \<open>
  What the packet filter and the connection ID generator rely on: a token can be issued for
  every 8-byte nonce, the token determines its direction and nonce, the judge accepts
  exactly the tokens issued for the path it is asked about, and names the mistake when a
  token of the other direction is presented.
\<close>

locale token_scheme =
  fixes issue :: "Direction \<Rightarrow> bytes \<Rightarrow> Ipv4Addr \<Rightarrow> Ipv4Addr \<Rightarrow> bytes option"
    and judge :: "bytes \<Rightarrow> Direction \<Rightarrow> Ipv4Addr \<Rightarrow> Ipv4Addr \<Rightarrow> (AuthError + unit) option"
  assumes issue_total: "length n = 8 \<Longrightarrow> \<exists>t. issue d n s r = Some t \<and> length t = 20"
    and issue_nonce: "issue d n s r = Some t \<Longrightarrow> length n = 8"
    and issue_inject:
      "issue d n s r = Some t \<Longrightarrow> issue d' n' s' r' = Some t \<Longrightarrow> d = d' \<and> n = n'"
    and judge_total: "\<exists>v. judge t d s r = Some v"
    and judge_Ok_iff: "judge t d s r = Some (Ok ()) \<longleftrightarrow> (\<exists>n. issue d n s r = Some t)"
    and judge_other_direction:
      "issue d n s r = Some t \<Longrightarrow> d' \<noteq> d \<Longrightarrow> judge t d' s' r' = Some (Err WrongDirection)"
begin

lemma issued_accepted: "issue d n s r = Some t \<Longrightarrow> judge t d s r = Some (Ok ())"
  by (auto simp: judge_Ok_iff)

lemma issue_the: "length n = 8 \<Longrightarrow> issue d n s r = Some (the (issue d n s r))"
  using issue_total [of n d s r] by auto

lemma accepted_length: "judge t d s r = Some (Ok ()) \<Longrightarrow> length t = 20"
proof -
  assume "judge t d s r = Some (Ok ())"
  then obtain n where n: "issue d n s r = Some t" by (auto simp: judge_Ok_iff)
  with issue_total [OF issue_nonce [OF n], of d s r] show ?thesis by simp
qed

lemma accepted_one_direction:
  "judge t d s r = Some (Ok ()) \<Longrightarrow> judge t d' s' r' = Some (Ok ()) \<Longrightarrow> d = d'"
  using issue_inject by (auto simp: judge_Ok_iff)

lemma accepted_image:
  "{t. judge t d s r = Some (Ok ())} = (\<lambda>n. the (issue d n s r)) ` {n. length n = 8}"
proof (intro set_eqI iffI)
  fix t assume "t \<in> {t. judge t d s r = Some (Ok ())}"
  then obtain n where n: "issue d n s r = Some t" by (auto simp: judge_Ok_iff)
  then have "t = the (issue d n s r)" "n \<in> {n. length n = 8}" by (simp_all add: issue_nonce)
  then show "t \<in> (\<lambda>n. the (issue d n s r)) ` {n. length n = 8}" by (rule image_eqI)
next
  fix t assume "t \<in> (\<lambda>n. the (issue d n s r)) ` {n. length n = 8}"
  then obtain n where n: "length n = 8" "t = the (issue d n s r)" by auto
  with issue_the [OF n(1), of d s r] have "issue d n s r = Some t" by simp
  then show "t \<in> {t. judge t d s r = Some (Ok ())}" by (auto simp: judge_Ok_iff)
qed

lemma card_accepted: "card {t. judge t d s r = Some (Ok ())} = 2 ^ 64"
proof -
  have inj: "inj_on (\<lambda>n. the (issue d n s r)) {n. length n = 8}"
  proof (rule inj_onI)
    fix m n assume "m \<in> {n. length n = 8}" "n \<in> {n. length n = 8}"
      and eq: "the (issue d m s r) = the (issue d n s r)"
    then have "issue d m s r = Some (the (issue d n s r))"
      and "issue d n s r = Some (the (issue d n s r))"
      using issue_the [of m d s r] issue_the [of n d s r] by simp_all
    then show "m = n" using issue_inject by blast
  qed
  have "card {n :: bytes. length n = 8} = card (UNIV :: u8 set) ^ 8"
    using card_lists_length_eq [of "UNIV :: u8 set" 8] by simp
  then show ?thesis
    by (simp add: accepted_image card_image [OF inj] card_word)
qed

end

lemma assemble_Some_iff:
  "assemble aes d n s r = Some t \<longleftrightarrow> length n = 8 \<and> t = token_format aes d n s r"
proof (cases "length n = 8")
  case True
  then show ?thesis by (auto simp: assemble_eq)
next
  case False
  then show ?thesis by (simp add: assemble_def consts_simps copy_into_def Let_def)
qed

lemma token_format_inject:
  "length n = 8 \<Longrightarrow> length n' = 8 \<Longrightarrow> token_format aes d n s r = token_format aes d' n' s' r' \<longleftrightarrow>
     d = d' \<and> n = n' \<and>
     trunc80 aes (key d) (tag_message n s r) = trunc80 aes (key d) (tag_message n s' r')"
  unfolding token_format_def by (auto simp: sel.enc_append_inject)

lemma verify_other_direction:
  assumes "length n = 8" and "d' \<noteq> d"
  shows "verify aes (token_format aes d n s r) d' s' r' = Some (Err WrongDirection)"
proof -
  have "take 2 (token_format aes d n s r) = be_bytes 2 (selector d)"
    by (simp add: token_format_def)
  then show ?thesis
    using assms by (cases d; cases d') (simp_all add: verify_eq_ref verify_ref_def from_be_bytes_be_bytes)
qed

interpretation tok: token_scheme "assemble aes" "verify aes" for aes :: block_cipher
proof
  show "\<exists>t. assemble aes d n s r = Some t \<and> length t = 20" if "length n = 8" for d n s r
    using that by (simp add: assemble_eq)
  show "length n = 8" if "assemble aes d n s r = Some t" for d n s r t
    using that by (simp add: assemble_Some_iff)
  show "d = d' \<and> n = n'"
    if "assemble aes d n s r = Some t" "assemble aes d' n' s' r' = Some t" for d n s r d' n' s' r' t
    using that token_format_inject [of n n' aes d s r d' s' r'] by (auto simp: assemble_Some_iff)
  show "\<exists>v. verify aes t d s r = Some v" for t d s r
    by (simp add: verify_eq_ref)
  show "verify aes t d s r = Some (Ok ()) \<longleftrightarrow> (\<exists>n. assemble aes d n s r = Some t)" for t d s r
    by (simp add: verify_Ok_iff assemble_Some_iff)
  show "verify aes t d' s' r' = Some (Err WrongDirection)"
    if "assemble aes d n s r = Some t" "d' \<noteq> d" for d n s r t d' s' r'
    using that by (auto simp: assemble_Some_iff verify_other_direction)
qed

text \<open>The nonce that minting draws from the random generator, and the token it becomes.\<close>

definition drawn_nonce :: "'g rng \<Rightarrow> 'g \<Rightarrow> bytes" where
  "drawn_nonce rng g = overwrite (replicate 8 0) (fst (rng 8 g))"

lemma length_drawn_nonce [simp]: "length (drawn_nonce rng g) = 8"
  by (simp add: drawn_nonce_def)

lemma mint_between_eq:
  "mint_between rng aes d s r g = Some (token_format aes d (drawn_nonce rng g) s r, snd (rng 8 g))"
  by (simp add: mint_between_def drawn_nonce_def consts_simps assemble_eq case_prod_beta)

lemma mint_eq:
  "mint rng aes d peers g =
     Some (token_format aes d (drawn_nonce rng g) (fst (path d peers)) (snd (path d peers)), snd (rng 8 g))"
  by (simp add: mint_def mint_between_eq case_prod_beta)

lemma mint_between_total:
  "\<exists>n t g'. mint_between rng aes d s r g = Some (t, g') \<and> assemble aes d n s r = Some t"
  by (auto simp: mint_between_eq assemble_eq intro!: exI [of _ "drawn_nonce rng g"])

text \<open>The three fields of a token after one of its bytes is replaced.\<close>

lemma token_format_fields:
  assumes "length n = 8"
  shows "take 2 (token_format aes d n s r) = be_bytes 2 (selector d)"
    and "take 8 (drop 2 (token_format aes d n s r)) = n"
    and "drop 10 (token_format aes d n s r) = trunc80 aes (key d) (tag_message n s r)"
  using assms by (simp_all add: token_format_def)

lemma corrupted_accepted:
  assumes n: "length n = 8" and t: "t = token_format aes d n s r"
    and i: "i < 20" and b: "b \<noteq> t ! i" and ok: "verify aes (t[i := b]) d s r = Some (Ok ())"
  shows "2 \<le> i \<and> i < 10 \<and>
    trunc80 aes (key d) (tag_message (n[i - 2 := b]) s r) = trunc80 aes (key d) (tag_message n s r)"
proof -
  obtain n' where n': "length n' = 8" and t': "t[i := b] = token_format aes d n' s r"
    using ok by (auto simp: verify_Ok_iff)
  have len: "length t = 20" using n t by simp
  have changed: "t[i := b] \<noteq> t"
    using b i len by (metis nth_list_update_eq)
  note new = token_format_fields [OF n', of aes d s r, folded t']
    and old = token_format_fields [OF n, of aes d s r, folded t]
  have lo: "2 \<le> i"
  proof (rule ccontr)
    assume "\<not> 2 \<le> i"
    then have "take 8 (drop 2 (t[i := b])) = take 8 (drop 2 t)"
      by (simp add: drop_update_cancel)
    then show False using changed t t' new(2) old(2) by simp
  qed
  moreover have hi: "i < 10"
  proof (rule ccontr)
    assume "\<not> i < 10"
    then have "take 8 (drop 2 (t[i := b])) = take 8 (drop 2 t)"
      using lo by (simp add: drop_update_swap take_update_cancel)
    then show False using changed t t' new(2) old(2) by simp
  qed
  moreover have "n' = n[i - 2 := b]"
    using lo hi new(2) old(2) by (simp add: drop_update_swap take_update_swap)
  moreover have "drop 10 (t[i := b]) = drop 10 t"
    using hi by (simp add: drop_update_cancel)
  ultimately show ?thesis using new(3) old(3) by simp
qed

text \<open>A token presented on any path: the selector and the nonce fit, so the tag decides.\<close>

lemma verify_token_format:
  assumes n: "length n = 8"
  shows "verify aes (token_format aes d n s r) d s' r' =
    Some (if trunc80 aes (key d) (tag_message n s' r') = trunc80 aes (key d) (tag_message n s r)
          then Ok () else Err BadTag)"
  using token_format_fields [OF n, of aes d s r] n
  by (cases d) (auto simp: verify_eq_ref verify_ref_def from_be_bytes_be_bytes)

lemma corrupted_nonce_accepted:
  assumes n: "length n = 8" and i: "2 \<le> i" "i < 10"
    and eq: "trunc80 aes (key d) (tag_message (n[i - 2 := b]) s r) = trunc80 aes (key d) (tag_message n s r)"
  shows "verify aes ((token_format aes d n s r)[i := b]) d s r = Some (Ok ())"
proof -
  have "(token_format aes d n s r)[i := b] = token_format aes d (n[i - 2 := b]) s r"
    using n i eq less_diff_conv2 [of 2 i 8] by (simp add: token_format_def list_update_append)
  then show ?thesis using n verify_token_format [of "n[i - 2 := b]" aes d s r s r] by simp
qed

section \<open>Properties\<close>

text \<open>C1: \<open>verify\<close> never panics, on any input, and its verdict is the reference one: the
  length, then the selector, then the direction, then the tag is checked, each failure with
  its own error, and the branch-free comparison accepts exactly equal tags.\<close>

theorem verify_refines_reference:
  "verify aes token d src dst = Some (verify_ref aes token d src dst)"
  by (rule verify_eq_ref)

text \<open>C10: A token is accepted for a direction and a path exactly when it is the token
  assembled from some 8-byte nonce for that direction and that path.\<close>

theorem verify_accepts_exactly_assembled:
  "verify aes token d src dst = Some (Ok ()) \<longleftrightarrow>
     (\<exists>nonce. assemble aes d nonce src dst = Some token)"
  by (rule tok.judge_Ok_iff)

text \<open>Minting never panics, whatever the random generator returns, fills a maximal
  20-byte connection ID, and the fresh token verifies for its direction on its own path.\<close>

lemma minted_tokens_verify:
  "\<exists>token g'. mint rng aes d peers g = Some (token, g') \<and> length token = TOKEN_LEN \<and>
     verify aes token d (fst (path d peers)) (snd (path d peers)) = Some (Ok ())"
proof -
  obtain s r where p: "path d peers = (s, r)" by (cases "path d peers")
  obtain n t g' where m: "mint_between rng aes d s r g = Some (t, g')"
    and t: "assemble aes d n s r = Some t"
    using mint_between_total [of rng aes d s r g] by blast
  have "verify aes t d s r = Some (Ok ())" by (rule tok.issued_accepted [OF t])
  with m tok.accepted_length [OF this] show ?thesis by (simp add: mint_def p TOKEN_LEN_def)
qed

text \<open>C9: A token is bound to its direction and its path. In the other direction it is refused as
  \<open>WrongDirection\<close> on every path, so it cannot be replayed at its own sender. In its own
  direction it is judged by the tag alone: it passes exactly when the AES blocks of its nonce with
  the two address pairs have the same 80-bit truncation, and is refused as \<open>BadTag\<close> otherwise.
  On every path other than its own these two blocks differ.\<close>

theorem token_bound_to_its_path:
  assumes "assemble aes d nonce src dst = Some token"
  shows "verify aes token d' src' dst' =
      Some (if d' \<noteq> d then Err WrongDirection
            else if trunc80 aes (key d) (tag_message nonce src' dst') = trunc80 aes (key d) (tag_message nonce src dst)
            then Ok () else Err BadTag) \<and>
    ((src', dst') \<noteq> (src, dst) \<longrightarrow> tag_message nonce src' dst' \<noteq> tag_message nonce src dst)"
  using assms
  by (auto simp: assemble_Some_iff verify_token_format verify_other_direction tag_message_inject)

theorem token_bound_to_its_path_witness:
  "verify (\<lambda>k m. m) [0, 1, 7, 7, 7, 7, 7, 7, 7, 7, 7, 7, 7, 7, 7, 7, 7, 7, 10, 0]
     ClientToServer (Ipv4Addr 192 0 2 9) (Ipv4Addr 10 0 0 2) = Some (Err BadTag)"
proof -
  have "assemble (\<lambda>k m. m) ClientToServer [7, 7, 7, 7, 7, 7, 7, 7] (Ipv4Addr 10 0 0 1) (Ipv4Addr 10 0 0 2) =
      Some [0, 1, 7, 7, 7, 7, 7, 7, 7, 7, 7, 7, 7, 7, 7, 7, 7, 7, 10, 0]"
    by code_simp
  moreover have "trunc80 (\<lambda>k m. m) (key ClientToServer)
        (tag_message [7, 7, 7, 7, 7, 7, 7, 7] (Ipv4Addr 192 0 2 9) (Ipv4Addr 10 0 0 2)) \<noteq>
      trunc80 (\<lambda>k m. m) (key ClientToServer)
        (tag_message [7, 7, 7, 7, 7, 7, 7, 7] (Ipv4Addr 10 0 0 1) (Ipv4Addr 10 0 0 2))"
    by code_simp
  ultimately show ?thesis
    using token_bound_to_its_path [of "\<lambda>k m. m" ClientToServer "[7, 7, 7, 7, 7, 7, 7, 7]"
        "Ipv4Addr 10 0 0 1" "Ipv4Addr 10 0 0 2"
        "[0, 1, 7, 7, 7, 7, 7, 7, 7, 7, 7, 7, 7, 7, 7, 7, 7, 7, 10, 0]"
        ClientToServer "Ipv4Addr 192 0 2 9" "Ipv4Addr 10 0 0 2"]
    by (simp only: if_False simp_thms)
qed

text \<open>C28: For every direction and path exactly \<open>2 ^ 64\<close> byte strings are accepted, one per
  nonce, out of the \<open>2 ^ 160\<close> strings of token length: a connection ID drawn blindly is
  accepted with probability \<open>2 ^ - 96\<close>.\<close>

theorem accepted_tokens_count:
  "card {token. verify aes token d src dst = Some (Ok ())} = 2 ^ 64"
  by (rule tok.card_accepted)

text \<open>C29: Corruption of any single byte of a token is detected, except that a changed nonce
  byte passes exactly when the changed nonce has the same 80-bit tag as the original.\<close>

theorem corrupted_byte_detected:
  assumes "assemble aes d nonce src dst = Some token" and "i < TOKEN_LEN" and "b \<noteq> token ! i"
  shows "verify aes (token[i := b]) d src dst = Some (Ok ()) \<longleftrightarrow>
    2 \<le> i \<and> i < 10 \<and> trunc80 aes (key d) (tag_message (nonce[i - 2 := b]) src dst) =
      trunc80 aes (key d) (tag_message nonce src dst)"
  using assms corrupted_accepted [of nonce token aes d src dst i b]
    corrupted_nonce_accepted [of nonce i aes d b src dst]
  by (auto simp: assemble_Some_iff consts_simps)

theorem corrupted_byte_detected_witness:
  "verify (\<lambda>k m. m) ([0, 1, 7, 7, 7, 7, 7, 7, 7, 7, 7, 7, 7, 7, 7, 7, 7, 7, 10, 0][3 := 8])
     ClientToServer (Ipv4Addr 10 0 0 1) (Ipv4Addr 10 0 0 2) \<noteq> Some (Ok ())"
  using corrupted_byte_detected
      [of "\<lambda>k m. m" ClientToServer "[7, 7, 7, 7, 7, 7, 7, 7]" "Ipv4Addr 10 0 0 1" "Ipv4Addr 10 0 0 2"
        "[0, 1, 7, 7, 7, 7, 7, 7, 7, 7, 7, 7, 7, 7, 7, 7, 7, 7, 10, 0]" 3 8]
  by (simp add: assemble_eq token_format_def trunc80_def encrypt_block_def overwrite_def
      tag_message_def be_bytes_def numeral_2_eq_2 tag_eq consts_simps numeral_3_eq_3)

end
