(* ===== verification/Auth_Filter.thy ===== *)
theory Auth_Filter
  imports Auth_Token
begin

text \<open>
  The packet-level filter of \<open>src/auth.rs\<close>: locating the destination connection ID in a
  QUIC datagram (\<open>destination_cid\<close>) and the \<open>Authenticator\<close> that checks it as a token
  for the path the datagram arrived on.
\<close>

section \<open>Locating the connection ID\<close>

text \<open>The range \<open>a..b\<close> of the datagram that \<open>get\<close> is called with.\<close>

definition destination_cid_range :: "bytes \<Rightarrow> (nat \<times> nat) option" where
  "destination_cid_range datagram = do {
     hd0 \<leftarrow> elem_get datagram 0;
     (if hd0 AND 0x80 \<noteq> 0 then do {
        len_byte \<leftarrow> elem_get datagram 5;
        let len = unat len_byte;
        (if len > TOKEN_LEN then None else Some (6, 6 + len))
      }
      else Some (1, 1 + TOKEN_LEN))
   }"

definition destination_cid :: "bytes \<Rightarrow> bytes option" where
  "destination_cid datagram = do {
     (a, b) \<leftarrow> destination_cid_range datagram;
     slice_get datagram a b
   }"

section \<open>The authenticator\<close>

record Authenticator =
  inbound :: Direction
  auth_local_ip :: Ipv4Addr

definition Authenticator_new :: "Direction \<Rightarrow> Ipv4Addr \<Rightarrow> Authenticator" where
  "Authenticator_new d local = \<lparr>inbound = d, auth_local_ip = local\<rparr>"

definition check ::
  "block_cipher \<Rightarrow> Authenticator \<Rightarrow> bytes \<Rightarrow> IpAddr \<Rightarrow> (AuthError + unit) option" where
  "check aes a datagram src =
     (case src of
        V6 _ \<Rightarrow> Some (Err (NotIpv4 src))
      | V4 src4 \<Rightarrow>
          (case destination_cid datagram of
             None \<Rightarrow> Some (Err NotQuic)
           | Some cid \<Rightarrow> verify aes cid (inbound a) src4 (auth_local_ip a)))"

section \<open>Datagram shapes\<close>

text \<open>
  The two QUIC header forms as the filter reads them: a long header with flags, a 4-byte
  version, the connection ID's length and the ID, and a short header whose ID has the fixed
  token length.
\<close>

definition long_header :: "u8 \<Rightarrow> bytes \<Rightarrow> bytes \<Rightarrow> bytes \<Rightarrow> bytes" where
  "long_header flags version dcid rest =
     [flags] @ version @ [of_nat (length dcid)] @ dcid @ rest"

definition short_header :: "u8 \<Rightarrow> bytes \<Rightarrow> bytes \<Rightarrow> bytes" where
  "short_header flags dcid rest = [flags] @ dcid @ rest"

definition is_long :: "u8 \<Rightarrow> bool" where
  "is_long flags \<longleftrightarrow> flags AND 0x80 \<noteq> 0"

text \<open>A datagram that carries, as its destination connection ID, a token for this path.\<close>

definition carries_token :: "block_cipher \<Rightarrow> Authenticator \<Rightarrow> bytes \<Rightarrow> IpAddr \<Rightarrow> bool" where
  "carries_token aes a datagram src \<longleftrightarrow>
     (\<exists>src4 cid nonce. src = V4 src4 \<and> destination_cid datagram = Some cid \<and>
        assemble aes (inbound a) nonce src4 (auth_local_ip a) = Some cid)"

section \<open>Lemmas\<close>

lemma list_at_5:
  "elem_get dg 5 = Some b \<longleftrightarrow> (\<exists>us vs. dg = us @ [b] @ vs \<and> length us = 5)"
proof
  assume "elem_get dg 5 = Some b"
  then have "5 < length dg" "dg ! 5 = b" by (auto simp: elem_get_def split: if_splits)
  then have "dg = take 5 dg @ [b] @ drop 6 dg" and "length (take 5 dg) = 5"
    using id_take_nth_drop [of 5 dg] by auto
  then show "\<exists>us vs. dg = us @ [b] @ vs \<and> length us = 5" by blast
qed (auto simp: elem_get_def nth_append)

lemma destination_cid_eq:
  "destination_cid datagram = do {
     hd0 \<leftarrow> elem_get datagram 0;
     (if hd0 AND 0x80 \<noteq> 0 then do {
        len_byte \<leftarrow> elem_get datagram 5;
        (if unat len_byte > TOKEN_LEN then None else slice_get datagram 6 (6 + unat len_byte))
      }
      else slice_get datagram 1 (1 + TOKEN_LEN))
   }"
  by (auto simp: destination_cid_def destination_cid_range_def Let_def split: Option.bind_splits)

lemma destination_cid_long:
  "is_long flags \<Longrightarrow> length version = 4 \<Longrightarrow> length dcid \<le> 20 \<Longrightarrow>
     destination_cid (long_header flags version dcid rest) = Some dcid"
  by (simp add: destination_cid_eq long_header_def is_long_def elem_get_def slice_get_def
      nth_append consts_simps unat_of_nat)

lemma destination_cid_short:
  "\<not> is_long flags \<Longrightarrow> length dcid = 20 \<Longrightarrow>
     destination_cid (short_header flags dcid rest) = Some dcid"
  by (simp add: destination_cid_eq short_header_def is_long_def elem_get_def slice_get_def
      consts_simps)

lemma destination_cid_SomeD:
  assumes "destination_cid dg = Some cid"
  obtains (long) flags version rest where "is_long flags" "length version = 4" "length cid \<le> 20"
      "dg = long_header flags version cid rest"
  | (short) flags rest where "\<not> is_long flags" "length cid = 20"
      "dg = short_header flags cid rest"
proof -
  from assms obtain flags rs where dg: "dg = flags # rs"
    by (cases dg) (auto simp: destination_cid_eq elem_get_def)
  show thesis
  proof (cases "is_long flags")
    case True
    with assms dg obtain lb where lb: "elem_get dg 5 = Some lb" "unat lb \<le> 20"
      and cid: "slice_get dg 6 (6 + unat lb) = Some cid"
      by (auto simp: destination_cid_eq is_long_def elem_get_def bind_eq_Some_conv consts_simps
          Let_def split: if_splits)
    obtain us vs where usvs: "dg = us @ [lb] @ vs" "length us = 5"
      using lb(1) by (auto simp: list_at_5)
    have len: "length cid = unat lb"
      using slice_get_length [OF cid] by simp
    have vs: "vs = cid @ drop (unat lb) vs"
      using cid usvs append_take_drop_id [of "unat lb" vs]
      by (auto simp: slice_get_def split: if_splits)
    have us: "us = flags # tl us" "length (tl us) = 4"
      using usvs dg by (cases us; simp)+
    have "dg = long_header flags (tl us) cid (drop (unat lb) vs)"
      using usvs us vs len by (simp add: long_header_def)
    then show thesis
      using True us(2) len lb(2) by (intro long [of flags "tl us" "drop (unat lb) vs"]) simp_all
  next
    case False
    with assms dg have cid: "slice_get dg 1 21 = Some cid"
      by (simp add: destination_cid_eq is_long_def elem_get_def consts_simps)
    then have "dg = short_header flags cid (drop 20 rs)" and "length cid = 20"
      using dg append_take_drop_id [of 20 rs]
      by (auto simp: short_header_def slice_get_def split: if_splits)
    then show thesis using short False by blast
  qed
qed

lemma destination_cid_length: "destination_cid dg = Some cid \<Longrightarrow> length cid \<le> 20"
  by (erule destination_cid_SomeD) simp_all

lemma check_Ok_iff: "check aes a dg src = Some (Ok ()) \<longleftrightarrow> carries_token aes a dg src"
  by (auto simp: check_def carries_token_def tok.judge_Ok_iff split: IpAddr.splits option.splits)

lemma check_total: "\<exists>v. check aes a dg src = Some v"
  using tok.judge_total by (auto simp: check_def split: IpAddr.splits option.splits)

section \<open>The interface of a packet filter\<close>

text \<open>
  What the socket relies on: the verdict never panics, and it is \<open>Ok\<close> exactly for the
  datagrams that are genuine on their source address.
\<close>

locale packet_filter =
  fixes verdict :: "bytes \<Rightarrow> IpAddr \<Rightarrow> (AuthError + unit) option"
    and genuine :: "bytes \<Rightarrow> IpAddr \<Rightarrow> bool"
  assumes verdict_total: "\<exists>v. verdict dg src = Some v"
    and verdict_Ok_iff: "verdict dg src = Some (Ok ()) \<longleftrightarrow> genuine dg src"
begin

lemma verdict_cases:
  obtains (accepted) "genuine dg src" "verdict dg src = Some (Ok ())"
  | (refused) e where "\<not> genuine dg src" "verdict dg src = Some (Err e)"
proof -
  obtain v where v: "verdict dg src = Some v" using verdict_total by blast
  show thesis
  proof (cases v)
    case (Inl e)
    then show thesis using refused v verdict_Ok_iff [of dg src] by auto
  next
    case (Inr u)
    then show thesis using accepted v verdict_Ok_iff [of dg src] by auto
  qed
qed

lemma verdict_Err_iff: "(\<exists>e. verdict dg src = Some (Err e)) \<longleftrightarrow> \<not> genuine dg src"
  by (rule verdict_cases [of dg src]) auto

end

interpretation filt: packet_filter "check aes a" "carries_token aes a"
  for aes :: block_cipher and a :: Authenticator
  by unfold_locales (rule check_total, rule check_Ok_iff)

section \<open>Properties\<close>

text \<open>C13: The connection ID locator finds an ID exactly in the two header forms: after flags,
  version and a length byte of at most 20 when the top bit of the first byte is set, and the
  20 bytes after the first byte otherwise; on every other input it returns \<open>None\<close>.\<close>

theorem destination_cid_located:
  "destination_cid datagram = Some cid \<longleftrightarrow>
     (\<exists>flags version rest. is_long flags \<and> length version = 4 \<and> length cid \<le> TOKEN_LEN \<and>
        datagram = long_header flags version cid rest) \<or>
     (\<exists>flags rest. \<not> is_long flags \<and> length cid = TOKEN_LEN \<and>
        datagram = short_header flags cid rest)"
  (is "?located \<longleftrightarrow> ?long \<or> ?short")
proof
  assume ?located
  then show "?long \<or> ?short"
    by (rule destination_cid_SomeD) (auto simp: consts_simps)
next
  assume "?long \<or> ?short"
  then show ?located
    by (auto simp: destination_cid_long destination_cid_short consts_simps)
qed

text \<open>C4: The authenticator never panics: on every datagram from every source it returns a verdict,
  which names the first check that failed (a non-IPv4 source, no locatable connection ID, or the
  reference verdict on the located ID). It is \<open>Ok\<close> exactly when the datagram came from an IPv4
  source and carries, as its destination connection ID, a token assembled for the inbound direction
  on the path from that source to the local address.\<close>

theorem check_passes_exactly_genuine:
  "check aes a datagram src = Some
     (case src of V6 _ \<Rightarrow> Err (NotIpv4 src)
      | V4 src4 \<Rightarrow> (case destination_cid datagram of None \<Rightarrow> Err NotQuic
          | Some cid \<Rightarrow> verify_ref aes cid (inbound a) src4 (auth_local_ip a))) \<and>
   (check aes a datagram src = Some (Ok ()) \<longleftrightarrow> carries_token aes a datagram src)"
  using filt.verdict_Ok_iff [of aes a datagram src]
  by (simp add: check_def verify_eq_ref split: IpAddr.split option.split)

end
