(* ===== verification/Socket_Base.thy ===== *)
theory Socket_Base
  imports Auth_Filter
begin

text \<open>
  The state of \<open>PacketSocket\<close> (\<open>src/socket.rs\<close>): the counters, the authenticator and
  the Tokio socket underneath. Tokio's \<open>UdpSocket\<close> is a parameter: an environment state
  \<open>'e\<close> and the operations of \<open>udp_ops\<close> on it. A clone of a \<open>PacketSocket\<close> shares
  one \<open>Inner\<close>, so all clones are one state here.
\<close>

section \<open>I/O errors\<close>

datatype ErrorKind =
    WouldBlock
  | ConnectionRefused
  | ConnectionReset
  | HostUnreachable
  | NetworkUnreachable
  | OtherKind nat

record io_error =
  kind :: ErrorKind

definition is_transient :: "io_error \<Rightarrow> bool" where
  "is_transient e \<longleftrightarrow>
     kind e = ConnectionRefused \<or> kind e = ConnectionReset \<or>
     kind e = HostUnreachable \<or> kind e = NetworkUnreachable"

section \<open>Counters\<close>

record PacketCounts =
  sent :: u64
  sent_bytes :: u64
  received :: u64
  received_bytes :: u64
  rejected :: u64

text \<open>The atomic counters; \<open>fetch_add\<close> wraps around at the width of the counter.\<close>

record Counters =
  ctr_sent :: u64
  ctr_sent_bytes :: u64
  ctr_received :: u64
  ctr_received_bytes :: u64
  ctr_rejected :: u64

definition Counters_default :: Counters where
  "Counters_default = \<lparr>ctr_sent = 0, ctr_sent_bytes = 0, ctr_received = 0,
     ctr_received_bytes = 0, ctr_rejected = 0\<rparr>"

definition add_received :: "nat \<Rightarrow> Counters \<Rightarrow> Counters" where
  "add_received len c = c\<lparr>ctr_received := ctr_received c + 1,
     ctr_received_bytes := ctr_received_bytes c + of_nat len\<rparr>"

definition add_rejected :: "Counters \<Rightarrow> Counters" where
  "add_rejected c = c\<lparr>ctr_rejected := ctr_rejected c + 1\<rparr>"

definition add_sent :: "nat \<Rightarrow> Counters \<Rightarrow> Counters" where
  "add_sent n c = c\<lparr>ctr_sent := ctr_sent c + 1, ctr_sent_bytes := ctr_sent_bytes c + of_nat n\<rparr>"

section \<open>The socket\<close>

text \<open>
  The Tokio operations the socket calls. \<open>op_try_recv_from\<close> takes the buffer's length and
  returns what it wrote, the length it reports and the source; \<open>op_poll_writable\<close> polls
  one \<open>writable()\<close> future in the state \<open>'f\<close>, which starts as \<open>op_writable\<close>.
\<close>

record ('e, 'f) udp_ops =
  op_local_addr :: "'e \<Rightarrow> io_error + SocketAddr"
  op_poll_recv_ready :: "'e \<Rightarrow> (io_error + unit) poll \<times> 'e"
  op_try_recv_from :: "nat \<Rightarrow> 'e \<Rightarrow> (io_error + bytes \<times> nat \<times> SocketAddr) \<times> 'e"
  op_try_send_to :: "bytes \<Rightarrow> SocketAddr \<Rightarrow> 'e \<Rightarrow> (io_error + nat) \<times> 'e"
  op_writable :: 'f
  op_poll_writable :: "'f \<Rightarrow> 'e \<Rightarrow> (io_error + unit) poll \<times> 'f \<times> 'e"

record 'e Inner =
  io :: 'e
  authenticator :: "Authenticator option"
  counters :: Counters

text \<open>
  \<open>bind\<close>: the system's \<open>bind\<close>, \<open>set_nonblocking\<close> and Tokio's \<open>from_std\<close> are the
  parameters; the first that fails is the result.
\<close>

definition PacketSocket_bind ::
  "(SocketAddr \<Rightarrow> io_error + 's) \<Rightarrow> ('s \<Rightarrow> io_error + 's) \<Rightarrow> ('s \<Rightarrow> io_error + 'e) \<Rightarrow>
     SocketAddr \<Rightarrow> Authenticator option \<Rightarrow> io_error + 'e Inner" where
  "PacketSocket_bind std_bind set_nonblocking from_std addr auth =
     (case std_bind addr of Inl e \<Rightarrow> Err e
      | Inr socket \<Rightarrow>
          (case set_nonblocking socket of Inl e \<Rightarrow> Err e
           | Inr socket' \<Rightarrow>
               (case from_std socket' of Inl e \<Rightarrow> Err e
                | Inr udp \<Rightarrow> Ok \<lparr>io = udp, authenticator = auth, counters = Counters_default\<rparr>)))"

definition local_addr :: "('e, 'f) udp_ops \<Rightarrow> 'e Inner \<Rightarrow> io_error + SocketAddr" where
  "local_addr ops inner = op_local_addr ops (io inner)"

definition counts :: "'e Inner \<Rightarrow> PacketCounts" where
  "counts inner =
     \<lparr>sent = ctr_sent (counters inner),
      sent_bytes = ctr_sent_bytes (counters inner),
      received = ctr_received (counters inner),
      received_bytes = ctr_received_bytes (counters inner),
      rejected = ctr_rejected (counters inner)\<rparr>"

definition max_receive_segments :: nat where
  "max_receive_segments = 1"

definition may_fragment :: bool where
  "may_fragment = True"

definition max_transmit_segments :: nat where
  "max_transmit_segments = 1"

lemmas counter_defs = add_received_def add_rejected_def add_sent_def

end
