(* ===== verification/Ping.thy ===== *)
theory Ping
  imports Socket_Base
begin

text \<open>
  The ping protocol of \<open>src/lib.rs\<close>: the payload of a ping, one ping on the client's side, and
  the echo server's stream, connection and accept loops. Quinn's connections and streams are
  parameters over an environment \<open>'e\<close>: connections \<open>'c\<close>, send and receive halves \<open>'s\<close> and
  \<open>'r\<close>, and opaque error values \<open>'x\<close>.
\<close>

section \<open>Constants and errors\<close>

definition MAX_PING_BYTES :: nat where [consts_simps]: "MAX_PING_BYTES = 64 * 1024"

text \<open>Quinn's connection errors, the three the program tells apart by name.\<close>

datatype 'x ConnectionError =
    ApplicationClosed 'x
  | ConnectionClosed 'x
  | LocallyClosed
  | OtherConnectionError 'x

datatype 'x Error =
    Rcgen 'x
  | Tls 'x
  | NoInitialCipherSuite 'x
  | Connect 'x
  | Connection "'x ConnectionError"
  | Write 'x
  | Read 'x
  | ClosedStream 'x
  | EchoMismatch bytes bytes
  | Io io_error

section \<open>The payload of a ping\<close>

definition ping_payload :: "u64 \<Rightarrow> nat \<Rightarrow> bytes option" where
  "ping_payload seq sz = do {
     let payload = replicate sz 0;
     let seq_bytes = be_bytes 8 seq;
     let header = min (length seq_bytes) sz;
     prefix \<leftarrow> slice_get seq_bytes 0 header;
     payload \<leftarrow> copy_into payload 0 header prefix;
     body \<leftarrow> slice_get payload header (length payload);
     copy_into payload header (length payload) (map (\<lambda>(i, _). of_nat (i mod 251)) (enumerate 0 body))
   }"

section \<open>Streams\<close>

text \<open>
  The Quinn operations the protocol calls. \<open>op_now\<close> is \<open>Instant::now\<close> in nanoseconds;
  \<open>op_accept\<close> waits for an incoming connection of the endpoint and \<open>op_incoming\<close> for its
  handshake.
\<close>

record ('e, 'c, 's, 'r, 'i, 'x) quic_ops =
  op_open_bi :: "'c \<Rightarrow> 'e \<Rightarrow> ('x ConnectionError + 's \<times> 'r) \<times> 'e"
  op_accept_bi :: "'c \<Rightarrow> 'e \<Rightarrow> ('x ConnectionError + 's \<times> 'r) \<times> 'e"
  op_write_all :: "'s \<Rightarrow> bytes \<Rightarrow> 'e \<Rightarrow> ('x + unit) \<times> 'e"
  op_finish :: "'s \<Rightarrow> 'e \<Rightarrow> ('x + unit) \<times> 'e"
  op_read_to_end :: "'r \<Rightarrow> nat \<Rightarrow> 'e \<Rightarrow> ('x + bytes) \<times> 'e"
  op_accept :: "'e \<Rightarrow> 'i option \<times> 'e"
  op_incoming :: "'i \<Rightarrow> 'e \<Rightarrow> ('x ConnectionError + 'c) \<times> 'e"
  op_now :: "'e \<Rightarrow> nat \<times> 'e"

definition echo_stream ::
  "('e, 'c, 's, 'r, 'i, 'x) quic_ops \<Rightarrow> 's \<Rightarrow> 'r \<Rightarrow> 'e \<Rightarrow> ('x Error + unit) \<times> 'e" where
  "echo_stream ops send recv e =
     (case op_read_to_end ops recv MAX_PING_BYTES e of
        (Inl x, e) \<Rightarrow> (Err (Read x), e)
      | (Inr payload, e) \<Rightarrow>
          (case op_write_all ops send payload e of
             (Inl x, e) \<Rightarrow> (Err (Write x), e)
           | (Inr _, e) \<Rightarrow>
               (case op_finish ops send e of
                  (Inl x, e) \<Rightarrow> (Err (ClosedStream x), e)
                | (Inr _, e) \<Rightarrow> (Ok (), e))))"

text \<open>\<open>ping\<close> returns the round-trip time; \<open>Instant::elapsed\<close> does not go below zero.\<close>

definition ping ::
  "('e, 'c, 's, 'r, 'i, 'x) quic_ops \<Rightarrow> 'c \<Rightarrow> bytes \<Rightarrow> 'e \<Rightarrow> ('x Error + nat) \<times> 'e" where
  "ping ops connection payload e =
     (let (start, e) = op_now ops e in
      case op_open_bi ops connection e of
        (Inl x, e) \<Rightarrow> (Err (Connection x), e)
      | (Inr (send, recv), e) \<Rightarrow>
          (case op_write_all ops send payload e of
             (Inl x, e) \<Rightarrow> (Err (Write x), e)
           | (Inr _, e) \<Rightarrow>
               (case op_finish ops send e of
                  (Inl x, e) \<Rightarrow> (Err (ClosedStream x), e)
                | (Inr _, e) \<Rightarrow>
                    (case op_read_to_end ops recv MAX_PING_BYTES e of
                       (Inl x, e) \<Rightarrow> (Err (Read x), e)
                     | (Inr echoed, e) \<Rightarrow>
                         let (now, e) = op_now ops e;
                             rtt = now - start
                         in if echoed \<noteq> payload then (Err (EchoMismatch payload echoed), e)
                            else (Ok rtt, e)))))"

section \<open>The server's loops\<close>

text \<open>
  \<open>serve_connection\<close> spawns one \<open>echo_stream\<close> task per accepted stream; the list collects
  the streams in the order their tasks are spawned.
\<close>

definition serve_step ::
  "('e, 'c, 's, 'r, 'i, 'x) quic_ops \<Rightarrow> 'c \<Rightarrow> 'e \<times> ('s \<times> 'r) list \<Rightarrow>
     ((('x Error + unit) \<times> 'e \<times> ('s \<times> 'r) list) + 'e \<times> ('s \<times> 'r) list) option" where
  "serve_step ops connection st =
     (case st of (e, spawned) \<Rightarrow>
        Some (case op_accept_bi ops connection e of
          (Inr streams, e) \<Rightarrow> Inr (e, spawned @ [streams])
        | (Inl x, e) \<Rightarrow>
            Inl ((case x of
                    ApplicationClosed _ \<Rightarrow> Ok ()
                  | ConnectionClosed _ \<Rightarrow> Ok ()
                  | LocallyClosed \<Rightarrow> Ok ()
                  | _ \<Rightarrow> Err (Connection x)), e, spawned)))"

definition serve_connection ::
  "('e, 'c, 's, 'r, 'i, 'x) quic_ops \<Rightarrow> 'c \<Rightarrow> 'e \<Rightarrow>
     (('x Error + unit) \<times> 'e \<times> ('s \<times> 'r) list) option" where
  "serve_connection ops connection e = iterate (serve_step ops connection) (e, [])"

text \<open>\<open>run_echo_server\<close> spawns one task per incoming connection and returns when the endpoint closes.\<close>

definition run_step ::
  "('e, 'c, 's, 'r, 'i, 'x) quic_ops \<Rightarrow> 'e \<times> 'i list \<Rightarrow> (('e \<times> 'i list) + 'e \<times> 'i list) option" where
  "run_step ops st =
     (case st of (e, spawned) \<Rightarrow>
        Some (case op_accept ops e of
          (Some incoming, e) \<Rightarrow> Inr (e, spawned @ [incoming])
        | (None, e) \<Rightarrow> Inl (e, spawned)))"

definition run_echo_server :: "('e, 'c, 's, 'r, 'i, 'x) quic_ops \<Rightarrow> 'e \<Rightarrow> ('e \<times> 'i list) option" where
  "run_echo_server ops e = iterate (run_step ops) (e, [])"

text \<open>The task of one incoming connection: failures of the handshake and the service are dropped.\<close>

definition serve_incoming ::
  "('e, 'c, 's, 'r, 'i, 'x) quic_ops \<Rightarrow> 'i \<Rightarrow> 'e \<Rightarrow> ('e \<times> ('s \<times> 'r) list) option" where
  "serve_incoming ops incoming e =
     (case op_incoming ops incoming e of
        (Inl _, e) \<Rightarrow> Some (e, [])
      | (Inr connection, e) \<Rightarrow> map_option snd (serve_connection ops connection e))"

section \<open>Payload lemmas\<close>

text \<open>The payload as one would specify it.\<close>

definition payload_ref :: "u64 \<Rightarrow> nat \<Rightarrow> bytes" where
  "payload_ref seq sz = take sz (be_bytes 8 seq) @ map (\<lambda>i. of_nat (i mod 251)) [0..<sz - 8]"

lemma map_enumerate_index: "map (\<lambda>(i, _). f i) (enumerate n xs) = map f [n..<n + length xs]"
  by (induction xs arbitrary: n) (simp_all add: upt_rec)

lemma ping_payload_eq: "ping_payload seq sz = Some (payload_ref seq sz)"
  by (auto simp: ping_payload_def payload_ref_def slice_get_def copy_into_def map_enumerate_index min_def Let_def)

lemma length_payload_ref [simp]: "length (payload_ref seq sz) = sz"
  by (simp add: payload_ref_def min_def)

section \<open>What Quinn promises of its streams\<close>

text \<open>
  Streams are reliable and ordered. \<open>wrote e s\<close> are the bytes written to a send half so far and
  \<open>fin e s\<close> whether it was finished; \<open>feeds r\<close> is the peer's send half behind a receive
  half. Reading to the end returns, within the limit, all that the peer wrote before it
  finished. Any of the operations may fail, and only a successful \<open>finish\<close> finishes a half.
\<close>

definition reliable ::
  "('e, 'c, 's, 'r, 'i, 'x) quic_ops \<Rightarrow> ('e \<Rightarrow> 's \<Rightarrow> bytes) \<Rightarrow> ('e \<Rightarrow> 's \<Rightarrow> bool) \<Rightarrow> ('r \<Rightarrow> 's) \<Rightarrow> bool" where
  "reliable ops wrote fin feeds \<longleftrightarrow>
     (\<forall>s p e v e'. op_write_all ops s p e = (v, e') \<longrightarrow>
        fin e' = fin e \<and> (v = Ok () \<longrightarrow> wrote e' = (wrote e)(s := wrote e s @ p))) \<and>
     (\<forall>s e v e'. op_finish ops s e = (v, e') \<longrightarrow>
        wrote e' = wrote e \<and> fin e' = (if v = Ok () then (fin e)(s := True) else fin e)) \<and>
     (\<forall>r n e v e'. op_read_to_end ops r n e = (v, e') \<longrightarrow> wrote e' = wrote e \<and> fin e' = fin e \<and>
        (\<forall>d. v = Ok d \<longrightarrow> d = wrote e (feeds r) \<and> fin e (feeds r) \<and> length d \<le> n))"

text \<open>
  A stream the client opens: the client's halves \<open>(s, r)\<close> are connected crosswise to the halves
  \<open>(s', r')\<close> that the server accepts, and nothing has been written or finished on either.
\<close>

definition fresh_stream ::
  "('e, 'c, 's, 'r, 'i, 'x) quic_ops \<Rightarrow> ('e \<Rightarrow> 's \<Rightarrow> bytes) \<Rightarrow> ('e \<Rightarrow> 's \<Rightarrow> bool) \<Rightarrow> ('r \<Rightarrow> 's) \<Rightarrow> 's \<Rightarrow> 'r \<Rightarrow> bool" where
  "fresh_stream ops wrote fin feeds s' r' \<longleftrightarrow>
     (\<forall>c e s r e'. op_open_bi ops c e = (Ok (s, r), e') \<longrightarrow>
        feeds r = s' \<and> feeds r' = s \<and> s \<noteq> s' \<and> wrote e' s = [] \<and> wrote e' s' = [] \<and>
        \<not> fin e' s \<and> \<not> fin e' s')"

text \<open>No operation on a live connection fails, except reading more than the limit or an unfinished half.\<close>

definition undisturbed ::
  "('e, 'c, 's, 'r, 'i, 'x) quic_ops \<Rightarrow> ('e \<Rightarrow> 's \<Rightarrow> bytes) \<Rightarrow> ('e \<Rightarrow> 's \<Rightarrow> bool) \<Rightarrow> ('r \<Rightarrow> 's) \<Rightarrow> bool" where
  "undisturbed ops wrote fin feeds \<longleftrightarrow>
     (\<forall>c e. \<exists>s r e'. op_open_bi ops c e = (Ok (s, r), e')) \<and>
     (\<forall>s p e. \<exists>e'. op_write_all ops s p e = (Ok (), e')) \<and>
     (\<forall>s e. \<exists>e'. op_finish ops s e = (Ok (), e')) \<and>
     (\<forall>r n e. fin e (feeds r) \<and> length (wrote e (feeds r)) \<le> n \<longrightarrow>
        fst (op_read_to_end ops r n e) = Ok (wrote e (feeds r)))"

text \<open>
  Client and server together: while the client awaits the end of its receive half, the
  server's task for the stream runs \<open>echo_stream\<close> on its halves \<open>(s', r')\<close>.
\<close>

definition with_echo_task ::
  "'s \<Rightarrow> 'r \<Rightarrow> ('e, 'c, 's, 'r, 'i, 'x) quic_ops \<Rightarrow> ('e, 'c, 's, 'r, 'i, 'x) quic_ops" where
  "with_echo_task s' r' ops =
     ops\<lparr>op_read_to_end := \<lambda>r n e. op_read_to_end ops r n (snd (echo_stream ops s' r' e))\<rparr>"

lemma reliableD:
  assumes "reliable ops wrote fin feeds"
  shows "op_write_all ops s p e = (Ok (), e') \<Longrightarrow> wrote e' = (wrote e)(s := wrote e s @ p)"
    and "op_write_all ops s p e = (v, e') \<Longrightarrow> fin e' = fin e"
    and "op_finish ops s e = (u, e') \<Longrightarrow>
      wrote e' = wrote e \<and> fin e' = (if u = Ok () then (fin e)(s := True) else fin e)"
    and "op_read_to_end ops r n e = (w, e') \<Longrightarrow> wrote e' = wrote e \<and> fin e' = fin e"
    and "op_read_to_end ops r n e = (Ok d, e') \<Longrightarrow> d = wrote e (feeds r) \<and> fin e (feeds r) \<and> length d \<le> n"
  using assms unfolding reliable_def by metis+

lemma echo_stream_cases:
  obtains (read) x e1 where "op_read_to_end ops recv MAX_PING_BYTES e = (Err x, e1)"
      "echo_stream ops send recv e = (Err (Read x), e1)"
  | (unwritable) d x e1 e2 where "op_read_to_end ops recv MAX_PING_BYTES e = (Ok d, e1)"
      "op_write_all ops send d e1 = (Err x, e2)" "echo_stream ops send recv e = (Err (Write x), e2)"
  | (closed) d x e1 e2 e3 where "op_read_to_end ops recv MAX_PING_BYTES e = (Ok d, e1)"
      "op_write_all ops send d e1 = (Ok (), e2)" "op_finish ops send e2 = (Err x, e3)"
      "echo_stream ops send recv e = (Err (ClosedStream x), e3)"
  | (echoed) d e1 e2 e3 where "op_read_to_end ops recv MAX_PING_BYTES e = (Ok d, e1)"
      "op_write_all ops send d e1 = (Ok (), e2)" "op_finish ops send e2 = (Ok (), e3)"
      "echo_stream ops send recv e = (Ok (), e3)"
proof -
  obtain v e1 where r: "op_read_to_end ops recv MAX_PING_BYTES e = (v, e1)" by fastforce
  show thesis
  proof (cases v)
    case (Inl x)
    then show thesis using read r by (simp add: echo_stream_def)
  next
    case (Inr d)
    obtain v2 e2 where w: "op_write_all ops send d e1 = (v2, e2)" by fastforce
    obtain v3 e3 where f: "op_finish ops send e2 = (v3, e3)" by fastforce
    show thesis
      using r w f Inr unwritable closed echoed by (cases v2; cases v3) (simp_all add: echo_stream_def)
  qed
qed

lemma echo_stream_echoes:
  assumes "reliable ops wrote fin feeds" and "echo_stream ops s' r' e = (Ok (), e')"
  shows "wrote e' = (wrote e)(s' := wrote e s' @ wrote e (feeds r')) \<and> fin e' = (fin e)(s' := True) \<and>
    fin e (feeds r') \<and> length (wrote e (feeds r')) \<le> MAX_PING_BYTES"
proof (cases rule: echo_stream_cases [of ops r' e s'])
  case (echoed d e1 e2 e3)
  then show ?thesis
    using assms(2) reliableD(4,5) [OF assms(1) echoed(1)] reliableD(1,2) [OF assms(1) echoed(2)]
      reliableD(3) [OF assms(1) echoed(3)] by auto
qed (use assms(2) in simp_all)

lemma echo_stream_fails_unfinished:
  assumes "reliable ops wrote fin feeds" and "echo_stream ops s' r' e = (Err x, e')"
  shows "fin e' = fin e"
proof (cases rule: echo_stream_cases [of ops r' e s'])
  case (read y e1)
  then show ?thesis using assms(2) reliableD(4) [OF assms(1) read(1)] by simp
next
  case (unwritable d y e1 e2)
  then show ?thesis
    using assms(2) reliableD(4) [OF assms(1) unwritable(1)] reliableD(2) [OF assms(1) unwritable(2)] by simp
next
  case (closed d y e1 e2 e3)
  then show ?thesis
    using assms(2) reliableD(4) [OF assms(1) closed(1)] reliableD(2) [OF assms(1) closed(2)]
      reliableD(3) [OF assms(1) closed(3)] by simp
qed (use assms(2) in simp)

text \<open>The runs of a ping that compare an echo with the payload.\<close>

lemma ping_cases:
  obtains (failed) x where "fst (ping ops c payload e) = Err x" "\<And>a b. x \<noteq> EchoMismatch a b"
  | (compared) e0 s r e1 e2 e3 echoed e4 rtt where "op_open_bi ops c e0 = (Ok (s, r), e1)"
    "op_write_all ops s payload e1 = (Ok (), e2)" "op_finish ops s e2 = (Ok (), e3)"
    "op_read_to_end ops r MAX_PING_BYTES e3 = (Ok echoed, e4)"
    "fst (ping ops c payload e) = (if echoed \<noteq> payload then Err (EchoMismatch payload echoed) else Ok rtt)"
proof -
  obtain t0 e0 where n: "op_now ops e = (t0, e0)" by fastforce
  obtain v1 e1 where o1: "op_open_bi ops c e0 = (v1, e1)" by fastforce
  show thesis
  proof (cases v1)
    case (Inl x)
    then show thesis using failed o1 n by (simp add: ping_def)
  next
    case (Inr sr)
    obtain s r where sr: "sr = (s, r)" by fastforce
    obtain v2 e2 where o2: "op_write_all ops s payload e1 = (v2, e2)" by fastforce
    obtain v3 e3 where o3: "op_finish ops s e2 = (v3, e3)" by fastforce
    obtain v4 e4 where o4: "op_read_to_end ops r MAX_PING_BYTES e3 = (v4, e4)" by fastforce
    obtain t1 e5 where n5: "op_now ops e4 = (t1, e5)" by fastforce
    show thesis
    proof (cases "\<exists>d. v2 = Ok () \<and> v3 = Ok () \<and> v4 = Ok d")
      case True
      then obtain d where "v2 = Ok ()" "v3 = Ok ()" "v4 = Ok d" by blast
      then show thesis
        using compared [of e0 s r e1 e2 e3 d e4 "t1 - t0"] n o1 o2 o3 o4 n5 Inr sr by (simp add: ping_def)
    next
      case False
      then show thesis
        using failed n o1 o2 o3 o4 Inr sr
        by (cases v2; cases v3; cases v4) (simp_all add: ping_def)
    qed
  qed
qed

lemma with_echo_task_simps [simp]:
  "op_open_bi (with_echo_task s' r' ops) = op_open_bi ops"
  "op_write_all (with_echo_task s' r' ops) = op_write_all ops"
  "op_finish (with_echo_task s' r' ops) = op_finish ops"
  "op_now (with_echo_task s' r' ops) = op_now ops"
  "op_read_to_end (with_echo_task s' r' ops) r n e = op_read_to_end ops r n (snd (echo_stream ops s' r' e))"
  by (simp_all add: with_echo_task_def)

text \<open>The state in which the echo task starts: the payload is on the stream, the echo is not.\<close>

lemma payload_on_stream:
  assumes "reliable ops wrote fin feeds" and "fresh_stream ops wrote fin feeds s' r'"
    and "op_open_bi ops c e0 = (Ok (s, r), e1)" and "op_write_all ops s payload e1 = (Ok (), e2)"
    and "op_finish ops s e2 = (Ok (), e3)"
  shows "feeds r = s' \<and> feeds r' = s \<and> s \<noteq> s' \<and> wrote e3 s = payload \<and> wrote e3 s' = [] \<and>
    fin e3 s \<and> \<not> fin e3 s'"
  using assms(2,3) reliableD(1,2) [OF assms(1,4)] reliableD(3) [OF assms(1,5)]
  unfolding fresh_stream_def by fastforce

lemma echo_compared:
  assumes "reliable ops wrote fin feeds" and "fresh_stream ops wrote fin feeds s' r'"
    and "op_open_bi ops c e0 = (Ok (s, r), e1)" and "op_write_all ops s payload e1 = (Ok (), e2)"
    and "op_finish ops s e2 = (Ok (), e3)"
    and "op_read_to_end ops r n (snd (echo_stream ops s' r' e3)) = (Ok echoed, e5)"
  shows "echoed = payload \<and> length payload \<le> MAX_PING_BYTES"
proof -
  note start = payload_on_stream [OF assms(1-5)]
  obtain v e4 where echo: "echo_stream ops s' r' e3 = (v, e4)" by fastforce
  then have out: "echoed = wrote e4 s'" "fin e4 s'"
    using reliableD(5) [OF assms(1)] assms(6) start by (metis snd_conv)+
  show ?thesis
  proof (cases v)
    case (Inl x)
    then show ?thesis using echo_stream_fails_unfinished [OF assms(1)] echo out start by metis
  next
    case (Inr u)
    then show ?thesis using echo_stream_echoes [OF assms(1), of s' r' e3 e4] echo out start by simp
  qed
qed

lemma echo_arrives:
  assumes "reliable ops wrote fin feeds" and "undisturbed ops wrote fin feeds"
    and "feeds r = s'" and "feeds r' = s" and "fin e s" and "wrote e s' = []"
    and "length (wrote e s) \<le> MAX_PING_BYTES"
  shows "fst (op_read_to_end ops r MAX_PING_BYTES (snd (echo_stream ops s' r' e))) = Ok (wrote e s)"
proof -
  note u = assms(2) [unfolded undisturbed_def]
  have "\<exists>e'. echo_stream ops s' r' e = (Ok (), e')"
  proof (cases rule: echo_stream_cases [of ops r' e s'])
    case (read x e1)
    have "fst (op_read_to_end ops r' MAX_PING_BYTES e) = Ok (wrote e s)" using u assms(4,5,7) by blast
    then show ?thesis using read(1) by simp
  next
    case (unwritable d x e1 e2)
    moreover obtain e'' where "op_write_all ops s' d e1 = (Ok (), e'')" using u by blast
    ultimately show ?thesis by simp
  next
    case (closed d x e1 e2 e3)
    moreover obtain e'' where "op_finish ops s' e2 = (Ok (), e'')" using u by blast
    ultimately show ?thesis by simp
  qed blast
  then obtain e' where e': "echo_stream ops s' r' e = (Ok (), e')" by blast
  then have "wrote e' s' = wrote e s" "fin e' s'"
    using echo_stream_echoes [OF assms(1) e'] assms(4,6) by simp_all
  then show ?thesis using u assms(3,7) e' by (metis snd_conv)
qed

section \<open>Accept loops\<close>

text \<open>The items an acceptor hands out one after the other.\<close>

primrec accepted :: "('e \<Rightarrow> ('z + 'a) \<times> 'e) \<Rightarrow> 'e \<Rightarrow> 'a list \<Rightarrow> 'e \<Rightarrow> bool" where
  "accepted acc e [] e' = (e' = e)"
| "accepted acc e (a # as) e' =
     (case acc e of (Inl _, _) \<Rightarrow> False | (Inr b, e1) \<Rightarrow> b = a \<and> accepted acc e1 as e')"

text \<open>What an acceptor hands out up to its last answer is determined.\<close>

lemma accepted_unique:
  "accepted acc e xs e1 \<Longrightarrow> acc e1 = (Inl z, e') \<Longrightarrow> accepted acc e ys e2 \<Longrightarrow> acc e2 = (Inl z2, e2') \<Longrightarrow>
     xs = ys \<and> e1 = e2"
proof (induction xs arbitrary: e ys)
  case Nil
  then show ?case by (cases ys) auto
next
  case (Cons a xs)
  then show ?case by (cases ys) (auto split: prod.splits sum.splits)
qed

text \<open>
  The interface the server's loops have: a turn accepts one item and appends it to the spawned
  tasks, or ends the loop with the acceptor's last answer.
\<close>

locale accept_loop =
  fixes acc :: "'e \<Rightarrow> ('z + 'a) \<times> 'e"
    and turn :: "'e \<times> 'a list \<Rightarrow> ('o + 'e \<times> 'a list) option"
    and stop :: "'z \<Rightarrow> 'e \<Rightarrow> 'a list \<Rightarrow> 'o"
  assumes turn_item: "acc e = (Inr a, e') \<Longrightarrow> turn (e, xs) = Some (Inr (e', xs @ [a]))"
    and turn_stop: "acc e = (Inl z, e') \<Longrightarrow> turn (e, xs) = Some (Inl (stop z e' xs))"
begin

lemma loop_spawns_all:
  assumes "\<And>e a e'. acc e = (Inr a, e') \<Longrightarrow> m e' < (m e :: nat)"
  shows "\<exists>items e1 z e'. iterate turn (e, xs) = Some (stop z e' (xs @ items)) \<and>
    accepted acc e items e1 \<and> acc e1 = (Inl z, e')"
proof (induction "m e" arbitrary: e xs rule: less_induct)
  case less
  obtain v e1 where v: "acc e = (v, e1)" by fastforce
  show ?case
  proof (cases v)
    case (Inl z)
    then have "iterate turn (e, xs) = Some (stop z e1 (xs @ []))"
      using turn_stop [of e z e1 xs] v by (simp add: iterate.simps)
    then show ?thesis using v Inl by (metis accepted.simps(1))
  next
    case (Inr a)
    have "iterate turn (e, xs) = iterate turn (e1, xs @ [a])"
      using turn_item [of e a e1 xs] v Inr by (subst iterate.simps) simp
    moreover obtain items e2 z e' where "iterate turn (e1, xs @ [a]) = Some (stop z e' ((xs @ [a]) @ items))"
      "accepted acc e1 items e2" "acc e2 = (Inl z, e')"
      using less [of e1 "xs @ [a]"] assms v Inr by blast
    ultimately show ?thesis
      using v Inr by (intro exI [of _ "a # items"] exI [of _ e2] exI [of _ z] exI [of _ e']) simp
  qed
qed

end

text \<open>A close that ends the service of a connection without an error.\<close>

fun orderly_close :: "'x ConnectionError \<Rightarrow> bool" where
  "orderly_close (OtherConnectionError _) = False"
| "orderly_close _ = True"

interpretation conn: accept_loop "op_accept_bi ops connection" "serve_step ops connection"
  "\<lambda>x e spawned. (if orderly_close x then Ok () else Err (Connection x), e, spawned)"
  for ops :: "('e, 'c, 's, 'r, 'i, 'x) quic_ops" and connection :: 'c
  by unfold_locales (auto simp: serve_step_def split: ConnectionError.split)

definition accept_incoming :: "('e, 'c, 's, 'r, 'i, 'x) quic_ops \<Rightarrow> 'e \<Rightarrow> (unit + 'i) \<times> 'e" where
  "accept_incoming ops e = (case op_accept ops e of (None, e) \<Rightarrow> (Inl (), e) | (Some i, e) \<Rightarrow> (Inr i, e))"

interpretation srv: accept_loop "accept_incoming ops" "run_step ops" "\<lambda>_ e spawned. (e, spawned)"
  for ops :: "('e, 'c, 's, 'r, 'i, 'x) quic_ops"
  by unfold_locales (auto simp: run_step_def accept_incoming_def split: prod.splits option.splits)

text \<open>The task of an incoming connection ends when the connection's streams do.\<close>

lemma serve_incoming_returns:
  assumes "\<And>c e sr e'. op_accept_bi ops c e = (Ok sr, e') \<Longrightarrow> m e' < (m e :: nat)"
  shows "\<exists>r. serve_incoming ops incoming e = Some r"
proof -
  have "\<exists>r. serve_connection ops c e = Some r" for c e
    using conn.loop_spawns_all [where ops = ops and connection = c and m = m and e = e and xs = "[]"] assms
    by (auto simp: serve_connection_def)
  then show ?thesis
    by (auto simp: serve_incoming_def split: prod.split sum.split) (metis option.map(2))
qed

section \<open>An example transport\<close>

text \<open>
  One stream as two byte pipes with a flag for the finished end; the half \<open>True\<close> is the
  client's. Connections and incoming connections are the number of streams still to come.
\<close>

datatype pipes = Pipes "bytes \<times> bool" "bytes \<times> bool"

fun pipe :: "bool \<Rightarrow> pipes \<Rightarrow> bytes \<times> bool" where
  "pipe True (Pipes c s) = c"
| "pipe False (Pipes c s) = s"

fun set_pipe :: "bool \<Rightarrow> bytes \<times> bool \<Rightarrow> pipes \<Rightarrow> pipes" where
  "set_pipe True p (Pipes c s) = Pipes p s"
| "set_pipe False p (Pipes c s) = Pipes c p"

definition pipe_ops :: "(pipes, unit, bool, bool, unit, string) quic_ops" where
  "pipe_ops =
     \<lparr>op_open_bi = \<lambda>c e. (Ok (True, True), Pipes ([], False) ([], False)),
      op_accept_bi = \<lambda>c e. (Err LocallyClosed, e),
      op_write_all = \<lambda>s p e. (Ok (), set_pipe s (fst (pipe s e) @ p, snd (pipe s e)) e),
      op_finish = \<lambda>s e. (Ok (), set_pipe s (fst (pipe s e), True) e),
      op_read_to_end = \<lambda>r n e.
        (if \<not> snd (pipe (\<not> r) e) then Err ''open'' else if n < length (fst (pipe (\<not> r) e)) then Err ''long''
         else Ok (fst (pipe (\<not> r) e)), e),
      op_accept = \<lambda>e. (None, e), op_incoming = \<lambda>i e. (Ok (), e), op_now = \<lambda>e. (0, e)\<rparr>"

definition pipe_wrote :: "pipes \<Rightarrow> bool \<Rightarrow> bytes" where "pipe_wrote e s = fst (pipe s e)"
definition pipe_fin :: "pipes \<Rightarrow> bool \<Rightarrow> bool" where "pipe_fin e s = snd (pipe s e)"

lemma pipe_set_pipe: "pipe s (set_pipe s' p e) = (if s = s' then p else pipe s e)"
  by (cases e; cases s; cases s') simp_all

lemma pipe_reliable: "reliable pipe_ops pipe_wrote pipe_fin Not"
  by (auto simp: reliable_def pipe_ops_def pipe_wrote_def pipe_fin_def pipe_set_pipe fun_eq_iff split: if_splits)

lemma pipe_fresh: "fresh_stream pipe_ops pipe_wrote pipe_fin Not False False"
  by (auto simp: fresh_stream_def pipe_ops_def pipe_wrote_def pipe_fin_def)

lemma pipe_undisturbed: "undisturbed pipe_ops pipe_wrote pipe_fin Not"
  by (auto simp: undisturbed_def pipe_ops_def pipe_wrote_def pipe_fin_def)

section \<open>Properties\<close>

text \<open>C32: Building a ping payload never panics, for any size: it has exactly the requested
  size, starts with as many bytes of the big-endian sequence number as fit, counts modulo 251
  after them, and from 8 bytes on the sequence number can be read back from it.\<close>

theorem ping_payload_layout:
  "\<exists>p. ping_payload seq sz = Some p \<and> length p = sz \<and> take 8 p = take sz (be_bytes 8 seq) \<and>
     (\<forall>i. 8 \<le> i \<and> i < sz \<longrightarrow> p ! i = of_nat ((i - 8) mod 251)) \<and>
     (8 \<le> sz \<longrightarrow> from_be_bytes (take 8 p) = seq)"
proof -
  have "take 8 (payload_ref seq sz) = take sz (be_bytes 8 seq)"
    by (cases "sz < 8") (simp_all add: payload_ref_def)
  moreover have "from_be_bytes (take sz (be_bytes 8 seq)) = seq" if "8 \<le> sz"
    using that by (simp add: from_be_bytes_be_bytes)
  moreover have "payload_ref seq sz ! i = of_nat ((i - 8) mod 251)" if "8 \<le> i" "i < sz" for i
    using that nth_upt [of 0 "i - 8" "sz - 8"] by (simp add: payload_ref_def nth_append)
  ultimately show ?thesis by (simp add: ping_payload_eq)
qed

theorem ping_payload_layout_witness:
  "\<exists>p. ping_payload 0x0102030405060708 16 = Some p \<and> from_be_bytes (take 8 p) = (0x0102030405060708 :: u64)"
  using ping_payload_layout [of "0x0102030405060708" 16] by auto

text \<open>C21: With a server that runs \<open>echo_stream\<close> on the stream a ping opens, over reliable
  ordered streams on which any operation may fail, a ping never reports an echo mismatch, and
  it succeeds only with a payload of at most \<open>MAX_PING_BYTES\<close>.\<close>

theorem ping_never_mismatches:
  assumes "reliable ops wrote fin feeds" and "fresh_stream ops wrote fin feeds s' r'"
  shows "fst (ping (with_echo_task s' r' ops) c payload e) \<noteq> Err (EchoMismatch a b) \<and>
    (fst (ping (with_echo_task s' r' ops) c payload e) = Ok rtt \<longrightarrow> length payload \<le> MAX_PING_BYTES)"
proof (cases rule: ping_cases [of "with_echo_task s' r' ops" c payload e])
  case (failed x)
  then show ?thesis by auto
next
  case (compared e0 s r e1 e2 e3 echoed e4 rtt)
  then show ?thesis
    using echo_compared [OF assms, of c e0 s r e1 payload e2 e3 MAX_PING_BYTES echoed e4] by simp
qed

theorem ping_never_mismatches_witness:
  "fst (ping (with_echo_task False False pipe_ops) () (replicate 100 7) (Pipes ([], False) ([], False)))
     \<noteq> Err (EchoMismatch (replicate 100 7) [])"
  using ping_never_mismatches [OF pipe_reliable pipe_fresh] by blast

text \<open>C20: When moreover no operation fails except reading beyond the limit or an unfinished
  half, a ping succeeds exactly when its payload has at most \<open>MAX_PING_BYTES\<close>.\<close>

theorem ping_succeeds_within_the_limit:
  assumes "reliable ops wrote fin feeds" and "fresh_stream ops wrote fin feeds s' r'"
    and "undisturbed ops wrote fin feeds"
  shows "(\<exists>rtt. fst (ping (with_echo_task s' r' ops) c payload e) = Ok rtt) \<longleftrightarrow>
    length payload \<le> MAX_PING_BYTES"
proof
  assume "\<exists>rtt. fst (ping (with_echo_task s' r' ops) c payload e) = Ok rtt"
  then show "length payload \<le> MAX_PING_BYTES"
    by (cases rule: ping_cases [of "with_echo_task s' r' ops" c payload e])
      (use echo_compared [OF assms(1,2)] in auto)
next
  assume len: "length payload \<le> MAX_PING_BYTES"
  obtain t0 e0 where "op_now ops e = (t0, e0)" by fastforce
  moreover obtain s r e1 where o: "op_open_bi ops c e0 = (Ok (s, r), e1)"
    using assms(3) unfolding undisturbed_def by blast
  moreover obtain e2 where w: "op_write_all ops s payload e1 = (Ok (), e2)"
    using assms(3) unfolding undisturbed_def by blast
  moreover obtain e3 where f: "op_finish ops s e2 = (Ok (), e3)"
    using assms(3) unfolding undisturbed_def by blast
  moreover have "fst (op_read_to_end ops r MAX_PING_BYTES (snd (echo_stream ops s' r' e3))) = Ok payload"
    using echo_arrives [OF assms(1,3), of r s' r' s e3] payload_on_stream [OF assms(1,2) o w f] len by simp
  ultimately show "\<exists>rtt. fst (ping (with_echo_task s' r' ops) c payload e) = Ok rtt"
    by (auto simp: ping_def Let_def split: prod.splits)
qed

theorem ping_succeeds_within_the_limit_witness:
  "\<exists>rtt. fst (ping (with_echo_task False False pipe_ops) () [1, 2, 3] (Pipes ([], False) ([], False))) = Ok rtt"
  using ping_succeeds_within_the_limit [OF pipe_reliable pipe_fresh pipe_undisturbed, of "()" "[1, 2, 3]"]
  by (simp add: consts_simps)

text \<open>C26: Service of a connection that yields finitely many streams returns; by then exactly
  one echo task has been spawned per accepted stream, in the order of acceptance, and the
  result is \<open>Ok\<close> exactly when the connection ended in one of the three orderly ways.\<close>

theorem serve_connection_serves_every_stream:
  assumes "\<And>e sr e'. op_accept_bi ops connection e = (Ok sr, e') \<Longrightarrow> m e' < (m e :: nat)"
  shows "\<exists>streams e1 x e'. serve_connection ops connection e =
      Some (if orderly_close x then Ok () else Err (Connection x), e', streams) \<and>
    accepted (op_accept_bi ops connection) e streams e1 \<and> op_accept_bi ops connection e1 = (Err x, e')"
  using conn.loop_spawns_all [where ops = ops and connection = connection and m = m and e = e and xs = "[]"] assms
  by (simp add: serve_connection_def)

text \<open>The example connection hands out as many streams as its number, then times out.\<close>

definition stream_countdown :: "(nat, unit, nat, nat, nat, string) quic_ops" where
  "stream_countdown =
     \<lparr>op_open_bi = \<lambda>c e. (Err LocallyClosed, e),
      op_accept_bi = \<lambda>c e. (if 0 < e then (Ok (e, e), e - 1) else (Err (OtherConnectionError ''timed out''), e)),
      op_write_all = \<lambda>s p e. (Ok (), e), op_finish = \<lambda>s e. (Ok (), e), op_read_to_end = \<lambda>r n e. (Ok [], e),
      op_accept = \<lambda>e. (if 0 < e then (Some e, e - 1) else (None, e)), op_incoming = \<lambda>i e. (Ok (), e),
      op_now = \<lambda>e. (0, e)\<rparr>"

theorem serve_connection_serves_every_stream_witness:
  "\<exists>streams e1 x e'. serve_connection stream_countdown () 3 =
      Some (if orderly_close x then Ok () else Err (Connection x), e', streams) \<and>
    accepted (op_accept_bi stream_countdown ()) 3 streams e1 \<and>
    op_accept_bi stream_countdown () e1 = (Err x, e')"
  by (rule serve_connection_serves_every_stream [where m = id])
    (auto simp: stream_countdown_def split: if_splits)

text \<open>The accept loop of the server returns when the endpoint closes, having spawned one
  task per incoming connection in the order of arrival, whatever becomes of the connections.\<close>

lemma run_echo_server_accepts_all:
  assumes "\<And>e i e'. op_accept ops e = (Some i, e') \<Longrightarrow> m e' < (m e :: nat)"
  shows "\<exists>incomings e1 e'. run_echo_server ops e = Some (e', incomings) \<and>
    accepted (accept_incoming ops) e incomings e1 \<and> op_accept ops e1 = (None, e')"
proof -
  have acc: "m e' < m e" if "accept_incoming ops e = (Inr a, e')" for e a e'
    using that assms by (auto simp: accept_incoming_def split: prod.splits option.splits)
  obtain items e1 e' where "iterate (run_step ops) (e, []) = Some (e', items)"
    "accepted (accept_incoming ops) e items e1" "accept_incoming ops e1 = (Inl (), e')"
    using srv.loop_spawns_all [where ops = ops and m = m and e = e and xs = "[]"] acc by auto
  then show ?thesis
    by (auto simp: run_echo_server_def accept_incoming_def split: prod.splits option.splits)
qed

end
