(* ===== verification/Auth_Cid.thy ===== *)
theory Auth_Cid
  imports Auth_Filter
begin

text \<open>
  The connection IDs of \<open>src/auth.rs\<close>: the generator Quinn asks for the IDs an endpoint
  advertises (\<open>AuthCidGenerator\<close>), and the provider of the destination ID of a client's
  first packet. Quinn's \<open>ConnectionId::new\<close> is the parameter \<open>cid_new\<close>, and reading an
  ID back as bytes the parameter \<open>cid_bytes\<close>.
\<close>

record AuthCidGenerator =
  gen_direction :: Direction
  gen_local_ip :: Ipv4Addr

definition AuthCidGenerator_new :: "Direction \<Rightarrow> Ipv4Addr \<Rightarrow> AuthCidGenerator" where
  "AuthCidGenerator_new d local = \<lparr>gen_direction = d, gen_local_ip = local\<rparr>"

definition generate_cid ::
  "(bytes \<Rightarrow> 'c) \<Rightarrow> 'g rng \<Rightarrow> block_cipher \<Rightarrow> AuthCidGenerator \<Rightarrow> 'g \<Rightarrow> ('c \<times> 'g) option" where
  "generate_cid cid_new rng aes gen g =
     map_option (\<lambda>(token, g'). (cid_new token, g'))
       (mint_between rng aes (gen_direction gen) UNSPECIFIED (gen_local_ip gen) g)"

definition generate_cid_for ::
  "(bytes \<Rightarrow> 'c) \<Rightarrow> 'g rng \<Rightarrow> block_cipher \<Rightarrow> AuthCidGenerator \<Rightarrow> SocketAddr \<Rightarrow> IpAddr option \<Rightarrow>
     'g \<Rightarrow> ('c \<times> 'g) option" where
  "generate_cid_for cid_new rng aes gen remote local g =
     (case ip remote of
        V6 _ \<Rightarrow> map_option (\<lambda>(token, g'). (cid_new token, g'))
          (mint_between rng aes (gen_direction gen) UNSPECIFIED (gen_local_ip gen) g)
      | V4 peer \<Rightarrow> map_option (\<lambda>(token, g'). (cid_new token, g'))
          (mint_between rng aes (gen_direction gen) peer (gen_local_ip gen) g))"

definition cid_len :: "AuthCidGenerator \<Rightarrow> nat" where
  "cid_len gen = TOKEN_LEN"

text \<open>Quinn's \<open>Duration\<close> for a lifetime is given in nanoseconds; the generator sets none.\<close>

definition cid_lifetime :: "AuthCidGenerator \<Rightarrow> nat option" where
  "cid_lifetime gen = None"

definition initial_dst_cid_provider ::
  "(bytes \<Rightarrow> 'c) \<Rightarrow> 'g rng \<Rightarrow> block_cipher \<Rightarrow> Peers \<Rightarrow> 'g \<Rightarrow> ('c \<times> 'g) option" where
  "initial_dst_cid_provider cid_new rng aes peers g =
     map_option (\<lambda>(token, g'). (cid_new token, g')) (mint rng aes ClientToServer peers g)"

text \<open>
  What the program relies on of Quinn's connection IDs: an ID built from at most 20 bytes
  reads back as those bytes.
\<close>

definition cid_faithful :: "(bytes \<Rightarrow> 'c) \<Rightarrow> ('c \<Rightarrow> bytes) \<Rightarrow> bool" where
  "cid_faithful cid_new cid_bytes \<longleftrightarrow> (\<forall>bs. length bs \<le> 20 \<longrightarrow> cid_bytes (cid_new bs) = bs)"

text \<open>A datagram whose destination connection ID is the given bytes, in either header form.\<close>

definition addressed_to :: "bytes \<Rightarrow> bytes \<Rightarrow> bool" where
  "addressed_to cid datagram \<longleftrightarrow> destination_cid datagram = Some cid"

section \<open>Lemmas\<close>

text \<open>The address a generated ID is bound to as its source.\<close>

fun bound_source :: "IpAddr \<Rightarrow> Ipv4Addr" where
  "bound_source (V4 a) = a"
| "bound_source (V6 _) = UNSPECIFIED"

lemma generate_cid_for_eq:
  "generate_cid_for cid_new rng aes gen remote local g =
     map_option (\<lambda>(token, g'). (cid_new token, g'))
       (mint_between rng aes (gen_direction gen) (bound_source (ip remote)) (gen_local_ip gen) g)"
  by (cases "ip remote") (simp_all add: generate_cid_for_def)

lemma generate_cid_for_total:
  "\<exists>token nonce g'. generate_cid_for cid_new rng aes gen remote local g = Some (cid_new token, g') \<and>
     length token = 20 \<and>
     assemble aes (gen_direction gen) nonce (bound_source (ip remote)) (gen_local_ip gen) = Some token"
proof -
  obtain n t g'
    where m: "mint_between rng aes (gen_direction gen) (bound_source (ip remote)) (gen_local_ip gen) g
                = Some (t, g')"
      and t: "assemble aes (gen_direction gen) n (bound_source (ip remote)) (gen_local_ip gen) = Some t"
    using mint_between_total by metis
  with tok.accepted_length [OF tok.issued_accepted [OF t]] show ?thesis
    by (auto simp: generate_cid_for_eq)
qed

lemma generate_cid_eq:
  "generate_cid cid_new rng aes gen g =
     generate_cid_for cid_new rng aes gen \<lparr>ip = V4 UNSPECIFIED, port = 0\<rparr> None g"
  by (simp add: generate_cid_def generate_cid_for_def)

lemma check_addressed:
  "addressed_to cid dg \<Longrightarrow>
     check aes a dg (V4 s) = verify aes cid (inbound a) s (auth_local_ip a)"
  by (simp add: addressed_to_def check_def)

section \<open>The interface of an issuer of connection IDs\<close>

text \<open>
  What Quinn's use of a generator relies on: an ID can always be issued for a peer, it has
  the advertised length, and the endpoint's own check accepts it from that peer. Issuing for
  a sequence of peers threads the generator's state, as an endpoint with several connections
  (or one that rotates its IDs) does.
\<close>

fun issue_all :: "('p \<Rightarrow> 'g \<Rightarrow> ('t \<times> 'g) option) \<Rightarrow> 'p list \<Rightarrow> 'g \<Rightarrow> ('t list \<times> 'g) option" where
  "issue_all issue [] g = Some ([], g)"
| "issue_all issue (p # ps) g = do {
     (t, g1) \<leftarrow> issue p g;
     (ts, g2) \<leftarrow> issue_all issue ps g1;
     Some (t # ts, g2)
   }"

locale cid_issuer =
  fixes issue :: "'p \<Rightarrow> 'g \<Rightarrow> (bytes \<times> 'g) option"
    and accepts :: "bytes \<Rightarrow> 'p \<Rightarrow> bool"
  assumes issue_accepted: "\<exists>t g'. issue p g = Some (t, g') \<and> length t = 20 \<and> accepts t p"
begin

lemma issue_all_accepted:
  "\<exists>ts g'. issue_all issue ps g = Some (ts, g') \<and> list_all2 (\<lambda>t p. length t = 20 \<and> accepts t p) ts ps"
proof (induction ps arbitrary: g)
  case Nil
  then show ?case by simp
next
  case (Cons p ps)
  obtain t g1 where "issue p g = Some (t, g1)" "length t = 20" "accepts t p"
    using issue_accepted by blast
  moreover obtain ts g2 where "issue_all issue ps g1 = Some (ts, g2)"
    "list_all2 (\<lambda>t p. length t = 20 \<and> accepts t p) ts ps"
    using Cons.IH by blast
  ultimately show ?case by auto
qed

end

interpretation iss: cid_issuer "\<lambda>peer. mint_between rng aes d peer local"
  "\<lambda>t peer. verify aes t d peer local = Some (Ok ())"
  for rng :: "'g rng" and aes :: block_cipher and d :: Direction and local :: Ipv4Addr
proof
  show "\<exists>t g'. mint_between rng aes d p local g = Some (t, g') \<and> length t = 20 \<and>
      verify aes t d p local = Some (Ok ())" for p g
    using mint_between_total [of rng aes d p local g] tok.issued_accepted tok.accepted_length
    by blast
qed

lemma issue_all_map_option:
  "issue_all (\<lambda>p g. map_option (\<lambda>(t, g'). (f t, g')) (issue p g)) ps g =
     map_option (\<lambda>(ts, g'). (map f ts, g')) (issue_all issue ps g)"
  by (induction ps arbitrary: g) (auto split: bind_splits option.splits)

section \<open>Properties\<close>

text \<open>C14: One generator serves any number of peers: connection IDs generated in sequence for
  any list of IPv4 peers are all produced, and each authenticates every datagram addressed
  to it that its own peer sends, at the endpoint's matching authenticator.\<close>

theorem generated_cids_authenticate_their_peers:
  assumes "cid_faithful cid_new cid_bytes"
  shows "\<exists>cids g'. issue_all (\<lambda>p. generate_cid_for cid_new rng aes (AuthCidGenerator_new d local)
      \<lparr>ip = V4 p, port = prt\<rparr> hint) peers g = Some (cids, g') \<and>
    list_all2 (\<lambda>cid p. \<forall>dg. addressed_to (cid_bytes cid) dg \<longrightarrow>
      check aes (Authenticator_new d local) dg (V4 p) = Some (Ok ())) cids peers"
proof -
  obtain ts g' where ts: "issue_all (\<lambda>p. mint_between rng aes d p local) peers g = Some (ts, g')"
    and ok: "list_all2 (\<lambda>t p. length t = 20 \<and> verify aes t d p local = Some (Ok ())) ts peers"
    using iss.issue_all_accepted [of rng aes d local peers g] by blast
  have "issue_all (\<lambda>p. generate_cid_for cid_new rng aes (AuthCidGenerator_new d local)
      \<lparr>ip = V4 p, port = prt\<rparr> hint) peers g = Some (map cid_new ts, g')"
    by (simp add: generate_cid_for_eq [abs_def] AuthCidGenerator_new_def issue_all_map_option ts)
  moreover have "list_all2 (\<lambda>cid p. \<forall>dg. addressed_to (cid_bytes cid) dg \<longrightarrow>
      check aes (Authenticator_new d local) dg (V4 p) = Some (Ok ())) (map cid_new ts) peers"
    using ok assms
    by (auto simp: list_all2_map1 check_addressed Authenticator_new_def cid_faithful_def
        elim!: list_all2_mono)
  ultimately show ?thesis by blast
qed

theorem generated_cids_authenticate_their_peers_witness:
  "\<exists>cids g'. issue_all (\<lambda>p. generate_cid_for id (\<lambda>n g. (replicate n (of_nat g), Suc g)) (\<lambda>k m. m)
      (AuthCidGenerator_new ClientToServer LOCALHOST) \<lparr>ip = V4 p, port = 4433\<rparr> None)
      [Ipv4Addr 10 0 0 1, Ipv4Addr 198 51 100 7] 0 = Some (cids, g') \<and>
    list_all2 (\<lambda>cid p. \<forall>dg. addressed_to (id cid) dg \<longrightarrow>
      check (\<lambda>k m. m) (Authenticator_new ClientToServer LOCALHOST) dg (V4 p) = Some (Ok ()))
      cids [Ipv4Addr 10 0 0 1, Ipv4Addr 198 51 100 7]"
  by (rule generated_cids_authenticate_their_peers) (simp add: cid_faithful_def)

text \<open>C15: A connection ID issued for one peer does not authenticate another: a datagram
  addressed to it from any IPv4 source passes the check exactly when the tag of the ID's
  nonce on that source's path is the tag on the path of the peer it was issued for, and is
  refused as \<open>BadTag\<close> otherwise. An IPv6 peer's IDs are bound to the source 0.0.0.0.\<close>

theorem generated_cid_refused_elsewhere:
  assumes "cid_faithful cid_new cid_bytes"
    and "generate_cid_for cid_new rng aes (AuthCidGenerator_new d local) remote hint g = Some (cid, g')"
    and "addressed_to (cid_bytes cid) dg"
  shows "check aes (Authenticator_new d local) dg (V4 src) =
    (let nonce = take 8 (drop 2 (cid_bytes cid)) in
       Some (if trunc80 aes (key d) (tag_message nonce src local) =
               trunc80 aes (key d) (tag_message nonce (bound_source (ip remote)) local) then Ok () else Err BadTag))"
proof -
  obtain t n where t: "cid = cid_new t" "length t = 20"
    and n: "assemble aes d n (bound_source (ip remote)) local = Some t"
    using generate_cid_for_total [of cid_new rng aes "AuthCidGenerator_new d local" remote hint g]
      assms(2) by (auto simp: AuthCidGenerator_new_def)
  have "cid_bytes cid = t" using assms(1) t by (simp add: cid_faithful_def)
  then have "check aes (Authenticator_new d local) dg (V4 src) = verify aes t d src local"
    using assms(3) by (simp add: check_addressed Authenticator_new_def)
  then show ?thesis
    using n \<open>cid_bytes cid = t\<close>
    by (auto simp: assemble_Some_iff verify_token_format token_format_fields)
qed

theorem generated_cid_refused_elsewhere_witness:
  "check (\<lambda>k m. m) (Authenticator_new ClientToServer (Ipv4Addr 10 0 0 2))
     (short_header 64 [0, 1, 7, 7, 7, 7, 7, 7, 7, 7, 7, 7, 7, 7, 7, 7, 7, 7, 10, 0] [])
     (V4 (Ipv4Addr 192 0 2 9)) = Some (Err BadTag)"
proof -
  let ?cid = "[0, 1, 7, 7, 7, 7, 7, 7, 7, 7, 7, 7, 7, 7, 7, 7, 7, 7, 10, 0]"
  have "generate_cid_for id (\<lambda>n g. (replicate n 7, g)) (\<lambda>k m. m)
      (AuthCidGenerator_new ClientToServer (Ipv4Addr 10 0 0 2))
      \<lparr>ip = V4 (Ipv4Addr 10 0 0 1), port = 4433\<rparr> None () = Some (?cid, ())"
    by code_simp
  moreover have "addressed_to (id ?cid) (short_header 64 ?cid [])" by code_simp
  moreover have "trunc80 (\<lambda>k m. m) (key ClientToServer)
        (tag_message (take 8 (drop 2 (id ?cid))) (Ipv4Addr 192 0 2 9) (Ipv4Addr 10 0 0 2)) \<noteq>
      trunc80 (\<lambda>k m. m) (key ClientToServer)
        (tag_message (take 8 (drop 2 (id ?cid))) (bound_source (V4 (Ipv4Addr 10 0 0 1))) (Ipv4Addr 10 0 0 2))"
    by code_simp
  moreover have "cid_faithful id id" by (simp add: cid_faithful_def)
  ultimately show ?thesis
    using generated_cid_refused_elsewhere [of id id "\<lambda>n g. (replicate n 7, g)" "\<lambda>k m. m" ClientToServer
        "Ipv4Addr 10 0 0 2" "\<lparr>ip = V4 (Ipv4Addr 10 0 0 1), port = 4433\<rparr>" None "()" ?cid "()"
        "short_header 64 ?cid []" "Ipv4Addr 192 0 2 9"]
    by (simp only: Let_def if_False SocketAddr.simps simp_thms)
qed

text \<open>C40: A connection ID generated without a peer address is bound to the source address
  0.0.0.0: it is always produced, and a datagram addressed to it that arrives with that
  source address passes the check. The comment on \<open>generate_cid\<close> calls the token guaranteed
  not to authenticate.\<close>

theorem blind_cid_authenticates_unspecified_source:
  assumes "cid_faithful cid_new cid_bytes"
  shows "\<exists>cid g'. generate_cid cid_new rng aes (AuthCidGenerator_new d local) g = Some (cid, g') \<and>
    (\<forall>dg. addressed_to (cid_bytes cid) dg \<longrightarrow>
       check aes (Authenticator_new d local) dg (V4 UNSPECIFIED) = Some (Ok ()))"
proof -
  obtain t n g' where "generate_cid cid_new rng aes (AuthCidGenerator_new d local) g = Some (cid_new t, g')"
    and len: "length t = 20" and n: "assemble aes d n UNSPECIFIED local = Some t"
    using generate_cid_for_total [of cid_new rng aes "AuthCidGenerator_new d local"
        "\<lparr>ip = V4 UNSPECIFIED, port = 0\<rparr>" None g]
    by (auto simp: generate_cid_eq AuthCidGenerator_new_def)
  moreover have "check aes (Authenticator_new d local) dg (V4 UNSPECIFIED) = Some (Ok ())"
    if "addressed_to (cid_bytes (cid_new t)) dg" for dg
    using that assms len tok.issued_accepted [OF n]
    by (simp add: cid_faithful_def check_addressed Authenticator_new_def)
  ultimately show ?thesis by blast
qed

theorem blind_cid_authenticates_unspecified_source_witness:
  "\<exists>cid g'. generate_cid id (\<lambda>n g. (replicate n 7, g)) (\<lambda>k m. m)
      (AuthCidGenerator_new ClientToServer LOCALHOST) () = Some (cid, g') \<and>
    (\<forall>dg. addressed_to (id cid) dg \<longrightarrow>
       check (\<lambda>k m. m) (Authenticator_new ClientToServer LOCALHOST) dg (V4 UNSPECIFIED) = Some (Ok ()))"
  by (rule blind_cid_authenticates_unspecified_source) (simp add: cid_faithful_def)

end
