(* ===== verification/Endpoint.thy ===== *)
theory Endpoint
  imports Ping Auth_Cid
begin

text \<open>
  The set-up functions of \<open>src/lib.rs\<close>: the process-wide crypto provider, the transport, server
  and client configurations, and the mounting of a socket into Quinn as a listening or a
  client endpoint. rustls, rcgen and Quinn are parameters; their configurations are records
  with the fields this crate sets.
\<close>

section \<open>The crypto provider\<close>

text \<open>The static \<open>Once\<close> and the process's default provider, which another caller may have set.\<close>

record 'p process =
  install_done :: bool
  provider :: "'p option"

definition install_crypto_provider :: "'p \<Rightarrow> 'p process \<Rightarrow> 'p process" where
  "install_crypto_provider ring ps =
     (if install_done ps then ps
      else ps\<lparr>install_done := True,
              provider := (case provider ps of None \<Rightarrow> Some ring | Some p \<Rightarrow> Some p)\<rparr>)"

section \<open>Configurations\<close>

definition ALPN :: bytes where
  "ALPN = map of_char ''pktauth-ping/1''"

text \<open>Durations are in nanoseconds.\<close>

definition IDLE_TIMEOUT :: nat where [consts_simps]: "IDLE_TIMEOUT = 30 * 10 ^ 9"
definition KEEP_ALIVE_INTERVAL :: nat where [consts_simps]: "KEEP_ALIVE_INTERVAL = 5 * 10 ^ 9"

record 'i TransportConfig =
  max_idle_timeout :: "'i option"
  keep_alive_interval :: "nat option"

record tls_config =
  alpn_protocols :: "bytes list"

record ('q, 'i) ServerConfig =
  server_crypto :: 'q
  server_transport :: "'i TransportConfig"
  migration :: bool

record ('q, 'i, 'd) ClientConfig =
  client_crypto :: 'q
  client_transport :: "'i TransportConfig"
  dst_cid_provider :: "'d option"

record ('q, 'i, 'cert) ServerCredentials =
  config :: "('q, 'i) ServerConfig"
  cert_der :: 'cert

text \<open>
  The library calls of the configuration functions: Quinn's \<open>TransportConfig::default\<close>,
  \<open>IdleTimeout::try_from\<close>, \<open>ServerConfig::with_crypto\<close> and \<open>ClientConfig::new\<close>, the
  QUIC conversions of a TLS configuration, rcgen's certificate and rustls's builders.
\<close>

record ('e, 'p, 'x, 'i, 'cert, 'key, 'z, 'roots, 'q, 'd) tls_ops =
  ring_provider :: 'p
  transport_default :: "'i TransportConfig"
  idle_try_from :: "nat \<Rightarrow> 'i option"
  generate_self_signed :: "string list \<Rightarrow> 'e \<Rightarrow> ('x + 'cert \<times> 'key) \<times> 'e"
  with_single_cert :: "'cert list \<Rightarrow> 'key \<Rightarrow> 'x + 'z tls_config_scheme"
  quic_server_try_from :: "'z tls_config_scheme \<Rightarrow> 'x + 'q"
  with_crypto :: "'q \<Rightarrow> ('q, 'i) ServerConfig"
  roots_empty :: 'roots
  roots_add :: "'cert \<Rightarrow> 'roots \<Rightarrow> 'x + 'roots"
  with_root_certificates :: "'roots \<Rightarrow> 'z tls_config_scheme"
  quic_client_try_from :: "'z tls_config_scheme \<Rightarrow> 'x + 'q"
  client_new :: "'q \<Rightarrow> ('q, 'i, 'd) ClientConfig"

text \<open>\<open>None\<close> is the panic of \<open>expect\<close>.\<close>

definition transport_config ::
  "('e, 'p, 'x, 'i, 'cert, 'key, 'z, 'roots, 'q, 'd) tls_ops \<Rightarrow> 'i TransportConfig option" where
  "transport_config ops = do {
     idle \<leftarrow> idle_try_from ops IDLE_TIMEOUT;
     let transport = (transport_default ops)\<lparr>max_idle_timeout := Some idle\<rparr>;
     Some (transport\<lparr>keep_alive_interval := Some KEEP_ALIVE_INTERVAL\<rparr>)
   }"

definition self_signed_server_config ::
  "('e, 'p, 'x, 'i, 'cert, 'key, 'z, 'roots, 'q, 'd) tls_ops \<Rightarrow> string list \<Rightarrow> 'p process \<Rightarrow> 'e \<Rightarrow>
     ('x Error + ('q, 'i, 'cert) ServerCredentials) option \<times> 'p process \<times> 'e" where
  "self_signed_server_config ops subject_alt_names ps e =
     (let ps = install_crypto_provider (ring_provider ops) ps in
      case generate_self_signed ops subject_alt_names e of
        (Inl x, e) \<Rightarrow> (Some (Err (Rcgen x)), ps, e)
      | (Inr (cert, signing_key), e) \<Rightarrow>
          (case with_single_cert ops [cert] signing_key of
             Inl x \<Rightarrow> (Some (Err (Tls x)), ps, e)
           | Inr crypto \<Rightarrow>
               let crypto = crypto\<lparr>alpn_protocols := [ALPN]\<rparr> in
               (case quic_server_try_from ops crypto of
                  Inl x \<Rightarrow> (Some (Err (NoInitialCipherSuite x)), ps, e)
                | Inr quic \<Rightarrow>
                    (case transport_config ops of
                       None \<Rightarrow> (None, ps, e)
                     | Some transport \<Rightarrow>
                         let cfg = (with_crypto ops quic)\<lparr>server_transport := transport\<rparr>;
                             cfg = cfg\<lparr>migration := False\<rparr>
                         in (Some (Ok \<lparr>config = cfg, cert_der = cert\<rparr>), ps, e)))))"

text \<open>The loop that adds the trusted certificates to the root store.\<close>

fun add_roots :: "('cert \<Rightarrow> 'roots \<Rightarrow> 'x + 'roots) \<Rightarrow> 'cert list \<Rightarrow> 'roots \<Rightarrow> 'x + 'roots" where
  "add_roots add [] roots = Ok roots"
| "add_roots add (cert # certs) roots =
     (case add cert roots of Inl x \<Rightarrow> Err x | Inr roots \<Rightarrow> add_roots add certs roots)"

definition client_config ::
  "('e, 'p, 'x, 'i, 'cert, 'key, 'z, 'roots, 'q, 'd) tls_ops \<Rightarrow> 'cert list \<Rightarrow> 'p process \<Rightarrow>
     ('x Error + ('q, 'i, 'd) ClientConfig) option \<times> 'p process" where
  "client_config ops trusted_certs ps =
     (let ps = install_crypto_provider (ring_provider ops) ps in
      case add_roots (roots_add ops) trusted_certs (roots_empty ops) of
        Inl x \<Rightarrow> (Some (Err (Tls x)), ps)
      | Inr roots \<Rightarrow>
          let crypto = (with_root_certificates ops roots)\<lparr>alpn_protocols := [ALPN]\<rparr> in
          (case quic_client_try_from ops crypto of
             Inl x \<Rightarrow> (Some (Err (NoInitialCipherSuite x)), ps)
           | Inr quic \<Rightarrow>
               (case transport_config ops of
                  None \<Rightarrow> (None, ps)
                | Some transport \<Rightarrow> (Some (Ok ((client_new ops quic)\<lparr>client_transport := transport\<rparr>)), ps))))"

section \<open>Endpoints\<close>

text \<open>
  Quinn's endpoint configuration with the factory of connection ID generators, and an endpoint
  as the handle Quinn returned with what it was built from.
\<close>

record EndpointConfig =
  cid_generator :: "unit \<Rightarrow> AuthCidGenerator"

record ('h, 'q, 'i, 'd, 'e) Endpoint =
  handle :: 'h
  ep_config :: EndpointConfig
  ep_server_config :: "('q, 'i) ServerConfig option"
  ep_socket :: "'e Inner"
  ep_default_client :: "('q, 'i, 'd) ClientConfig option"

definition server_endpoint ::
  "(EndpointConfig \<Rightarrow> ('q, 'i) ServerConfig option \<Rightarrow> 'e Inner \<Rightarrow> io_error + 'h) \<Rightarrow> EndpointConfig \<Rightarrow>
     'e Inner \<Rightarrow> ('q, 'i) ServerConfig \<Rightarrow> Ipv4Addr \<Rightarrow> 'x Error + ('h, 'q, 'i, 'd, 'e) Endpoint" where
  "server_endpoint new_with_abstract_socket config_default socket cfg local_ip =
     (let endpoint_config =
            config_default\<lparr>cid_generator := \<lambda>_. AuthCidGenerator_new ClientToServer local_ip\<rparr> in
      case new_with_abstract_socket endpoint_config (Some cfg) socket of
        Inl x \<Rightarrow> Err (Io x)
      | Inr h \<Rightarrow> Ok \<lparr>handle = h, ep_config = endpoint_config, ep_server_config = Some cfg,
                    ep_socket = socket, ep_default_client = None\<rparr>)"

text \<open>The destination ID provider of a client configuration is a function of the random state.\<close>

definition client_endpoint ::
  "(EndpointConfig \<Rightarrow> ('q, 'i) ServerConfig option \<Rightarrow> 'e Inner \<Rightarrow> io_error + 'h) \<Rightarrow> EndpointConfig \<Rightarrow>
     (bytes \<Rightarrow> 'c) \<Rightarrow> 'g rng \<Rightarrow> block_cipher \<Rightarrow>
     'e Inner \<Rightarrow> ('q, 'i, 'g \<Rightarrow> ('c \<times> 'g) option) ClientConfig \<Rightarrow> Peers \<Rightarrow>
     'x Error + ('h, 'q, 'i, 'g \<Rightarrow> ('c \<times> 'g) option, 'e) Endpoint" where
  "client_endpoint new_with_abstract_socket config_default cid_new rng aes socket cfg peers =
     (let endpoint_config =
            config_default\<lparr>cid_generator := \<lambda>_. AuthCidGenerator_new ServerToClient (client peers)\<rparr>;
          cfg = cfg\<lparr>dst_cid_provider := Some (initial_dst_cid_provider cid_new rng aes peers)\<rparr>
      in case new_with_abstract_socket endpoint_config None socket of
           Inl x \<Rightarrow> Err (Io x)
         | Inr h \<Rightarrow> Ok \<lparr>handle = h, ep_config = endpoint_config, ep_server_config = None,
                       ep_socket = socket, ep_default_client = Some cfg\<rparr>)"

section \<open>Lemmas\<close>

text \<open>A provider that was there before is kept, and from the first call on there is one.\<close>

lemma install_crypto_provider_idem:
  "install_crypto_provider r (install_crypto_provider ring ps) = install_crypto_provider ring ps"
  by (simp add: install_crypto_provider_def)

lemma install_crypto_provider_keeps:
  "provider ps = Some p \<Longrightarrow> provider (install_crypto_provider ring ps) = Some p"
  by (simp add: install_crypto_provider_def)

lemma self_signed_server_config_Ok:
  assumes "self_signed_server_config ops names ps e = (Some (Ok creds), ps', e')"
  obtains cert k crypto q tc where
    "generate_self_signed ops names e = (Ok (cert, k), e')" "with_single_cert ops [cert] k = Ok crypto"
    "quic_server_try_from ops (crypto\<lparr>alpn_protocols := [ALPN]\<rparr>) = Ok q" "transport_config ops = Some tc"
    "creds = \<lparr>config = (with_crypto ops q)\<lparr>server_transport := tc, migration := False\<rparr>, cert_der = cert\<rparr>"
  using assms
  by (auto simp: self_signed_server_config_def Let_def split: prod.splits sum.splits option.splits)

lemma client_config_Ok:
  assumes "client_config ops certs ps = (Some (Ok cfg), ps')"
  obtains roots q tc where "add_roots (roots_add ops) certs (roots_empty ops) = Ok roots"
    "quic_client_try_from ops ((with_root_certificates ops roots)\<lparr>alpn_protocols := [ALPN]\<rparr>) = Ok q"
    "transport_config ops = Some tc" "cfg = (client_new ops q)\<lparr>client_transport := tc\<rparr>"
  using assms by (auto simp: client_config_def Let_def split: sum.splits option.splits)

lemma transport_config_Some:
  "transport_config ops = Some tc \<Longrightarrow>
     max_idle_timeout tc = idle_try_from ops IDLE_TIMEOUT \<and> keep_alive_interval tc = Some KEEP_ALIVE_INTERVAL"
  by (auto simp: transport_config_def Let_def split: bind_splits)

section \<open>Properties\<close>

text \<open>A server and a client configuration built by the library fit each other: both TLS
  configurations offer exactly the ping protocol, both ends have the same idle timeout and
  send keep-alives before it runs out, the server refuses migration, the certificate handed to
  clients is the one the server's TLS configuration presents, and the client trusts exactly
  the given certificates.\<close>

lemma configurations_fit:
  assumes "self_signed_server_config ops names ps e = (Some (Ok creds), ps', e')"
    and "client_config ops certs ps1 = (Some (Ok cfg), ps2)"
  shows "\<exists>k server_tls client_tls roots q q'.
    with_single_cert ops [cert_der creds] k = Ok server_tls \<and>
    quic_server_try_from ops (server_tls\<lparr>alpn_protocols := [ALPN]\<rparr>) = Ok q \<and>
    add_roots (roots_add ops) certs (roots_empty ops) = Ok roots \<and>
    client_tls = with_root_certificates ops roots \<and>
    quic_client_try_from ops (client_tls\<lparr>alpn_protocols := [ALPN]\<rparr>) = Ok q' \<and>
    max_idle_timeout (server_transport (config creds)) = max_idle_timeout (client_transport cfg) \<and>
    max_idle_timeout (client_transport cfg) = idle_try_from ops IDLE_TIMEOUT \<and>
    (\<exists>t < IDLE_TIMEOUT. keep_alive_interval (server_transport (config creds)) = Some t \<and>
       keep_alive_interval (client_transport cfg) = Some t) \<and>
    \<not> migration (config creds)"
proof -
  obtain cert k crypto q tc where
    "generate_self_signed ops names e = (Ok (cert, k), e')" "with_single_cert ops [cert] k = Ok crypto"
    "quic_server_try_from ops (crypto\<lparr>alpn_protocols := [ALPN]\<rparr>) = Ok q" and tc: "transport_config ops = Some tc"
    and creds: "creds = \<lparr>config = (with_crypto ops q)\<lparr>server_transport := tc, migration := False\<rparr>, cert_der = cert\<rparr>"
    using self_signed_server_config_Ok [OF assms(1)] by metis
  moreover obtain roots q' tc' where "add_roots (roots_add ops) certs (roots_empty ops) = Ok roots"
    "quic_client_try_from ops ((with_root_certificates ops roots)\<lparr>alpn_protocols := [ALPN]\<rparr>) = Ok q'"
    "transport_config ops = Some tc'" "cfg = (client_new ops q')\<lparr>client_transport := tc'\<rparr>"
    using client_config_Ok [OF assms(2)] by metis
  ultimately show ?thesis
    using transport_config_Some [OF tc] by (auto simp: consts_simps)
qed

text \<open>Example libraries that accept everything; certificates are numbers.\<close>

definition ex_tls :: "(nat, unit, unit, nat, nat, nat, unit, nat list, bytes list, 'd) tls_ops" where
  "ex_tls =
     \<lparr>ring_provider = (), transport_default = \<lparr>max_idle_timeout = None, keep_alive_interval = None\<rparr>,
      idle_try_from = \<lambda>d. Some (d div 10 ^ 6),
      generate_self_signed = \<lambda>names e. (Ok (e, e + 1), e + 2),
      with_single_cert = \<lambda>certs k. Ok \<lparr>alpn_protocols = []\<rparr>,
      quic_server_try_from = \<lambda>t. Ok (alpn_protocols t),
      with_crypto = \<lambda>q. \<lparr>server_crypto = q, server_transport = \<lparr>max_idle_timeout = None, keep_alive_interval = None\<rparr>,
        migration = True\<rparr>,
      roots_empty = [], roots_add = \<lambda>c r. Ok (r @ [c]),
      with_root_certificates = \<lambda>r. \<lparr>alpn_protocols = []\<rparr>,
      quic_client_try_from = \<lambda>t. Ok (alpn_protocols t),
      client_new = \<lambda>q. \<lparr>client_crypto = q, client_transport = \<lparr>max_idle_timeout = None, keep_alive_interval = None\<rparr>,
        dst_cid_provider = None\<rparr>\<rparr>"

abbreviation ex_tls1 :: "(nat, unit, unit, nat, nat, nat, unit, nat list, bytes list, unit) tls_ops" where
  "ex_tls1 \<equiv> ex_tls"

end
