(* ===== verification/Server.thy ===== *)
theory Server
  imports Endpoint
begin

text \<open>
  The echo server program \<open>src/bin/server.rs\<close>: the checks on its address, the set-up of the
  credentials, the authenticating socket and the endpoint, the service until an interrupt, and the
  shutdown. The file system,
  the system's sockets and Quinn are parameters.
\<close>

text \<open>What makes a program's \<open>main\<close> return an error; shared with the client.\<close>

datatype 'x main_error =
    AddressNotIpv4 IpAddr
  | AddressWildcard
  | PayloadTooLarge nat
  | LibraryError "'x Error"
  | ConnectError 'x
  | ConnectionFailed "'x ConnectionError"
  | IoError io_error

record server_args =
  listen :: SocketAddr
  cert_out :: string
  srv_server_name :: string
  no_dcid_validation :: bool

text \<open>
  The three steps of \<open>bind\<close>, the system's view of the bound address, Quinn's constructor and
  default endpoint configuration, the write of the certificate file, and the interrupt:
  \<open>op_ctrl_c\<close> is the poll of \<open>tokio::signal::ctrl_c\<close> in the \<open>select!\<close>, \<open>None\<close> as long as nothing
  interrupts the server before the accept loop gets its next answer. \<open>op_close\<close> and
  \<open>op_wait_idle\<close> end the endpoint; the latter gives the state the shared socket has then.
\<close>

record ('e, 'k, 'u, 'f, 'h, 'q, 'i, 'd, 'cert) host_ops =
  std_bind :: "SocketAddr \<Rightarrow> io_error + 'k"
  set_nonblocking :: "'k \<Rightarrow> io_error + 'k"
  from_std :: "'k \<Rightarrow> io_error + 'u"
  udp :: "('u, 'f) udp_ops"
  new_endpoint :: "EndpointConfig \<Rightarrow> ('q, 'i) ServerConfig option \<Rightarrow> 'u Inner \<Rightarrow> io_error + 'h"
  endpoint_default :: EndpointConfig
  fs_write :: "string \<Rightarrow> 'cert \<Rightarrow> 'e \<Rightarrow> (io_error + unit) \<times> 'e"
  fs_read :: "string \<Rightarrow> 'e \<Rightarrow> (io_error + 'cert) \<times> 'e"
  op_ctrl_c :: "'e \<Rightarrow> (io_error + unit) option \<times> 'e"
  op_close :: "'e \<Rightarrow> 'e"
  op_wait_idle :: "'u Inner \<Rightarrow> 'e \<Rightarrow> 'u Inner \<times> 'e"

text \<open>
  The set-up part of \<open>main\<close>, up to the mounted endpoint. The outer \<open>None\<close> is a panic, and
  the process state is threaded for the crypto provider.
\<close>

definition server_setup ::
  "('e, 'p, 'x, 'i, 'cert, 'key, 'z, 'roots, 'q, 'd) tls_ops \<Rightarrow>
   ('e, 'k, 'u, 'f, 'h, 'q, 'i, 'd, 'cert) host_ops \<Rightarrow> server_args \<Rightarrow> 'p process \<Rightarrow> 'e \<Rightarrow>
     ('x main_error + ('h, 'q, 'i, 'd, 'u) Endpoint) option \<times> 'p process \<times> 'e" where
  "server_setup tls host args ps e =
     (case ip (listen args) of
        V6 a \<Rightarrow> (Some (Err (AddressNotIpv4 (V6 a))), ps, e)
      | V4 server_ip \<Rightarrow>
          if is_unspecified server_ip then (Some (Err AddressWildcard), ps, e)
          else
            (case self_signed_server_config tls [srv_server_name args] ps e of
               (None, ps, e) \<Rightarrow> (None, ps, e)
             | (Some (Inl x), ps, e) \<Rightarrow> (Some (Err (LibraryError x)), ps, e)
             | (Some (Inr credentials), ps, e) \<Rightarrow>
                 (case fs_write host (cert_out args) (cert_der credentials) e of
                    (Inl x, e) \<Rightarrow> (Some (Err (IoError x)), ps, e)
                  | (Inr _, e) \<Rightarrow>
                      let authenticator =
                            (if no_dcid_validation args then None
                             else Some (Authenticator_new ClientToServer server_ip)) in
                      (case PacketSocket_bind (std_bind host) (set_nonblocking host) (from_std host)
                              (listen args) authenticator of
                         Inl x \<Rightarrow> (Some (Err (IoError x)), ps, e)
                       | Inr socket \<Rightarrow>
                           (case local_addr (udp host) socket of
                              Inl x \<Rightarrow> (Some (Err (IoError x)), ps, e)
                            | Inr _ \<Rightarrow>
                                (case server_endpoint (new_endpoint host) (endpoint_default host) socket
                                        (config credentials) server_ip of
                                   Inl x \<Rightarrow> (Some (Err (LibraryError x)), ps, e)
                                 | Inr endpoint \<Rightarrow> (Some (Ok endpoint), ps, e)))))))"

text \<open>
  The \<open>select!\<close> of \<open>run_echo_server\<close> and the interrupt. The accept loop gives up control only while
  it waits for the next connection, so a turn is either the interrupt, which drops the loop, or
  one turn of \<open>run_echo_server\<close>; the loop's own end also ends the \<open>select!\<close>, with success.
\<close>

definition select_step ::
  "('e, 'k, 'u, 'f, 'h, 'q, 'i, 'd, 'cert) host_ops \<Rightarrow> ('e, 'c, 's, 'r, 'n, 'x) quic_ops \<Rightarrow>
     'e \<times> 'n list \<Rightarrow> (((io_error + unit) \<times> 'e \<times> 'n list) + 'e \<times> 'n list) option" where
  "select_step host quic st =
     (case st of (e, spawned) \<Rightarrow>
        (case op_ctrl_c host e of
           (Some interrupted, e) \<Rightarrow> Some (Inl (interrupted, e, spawned))
         | (None, e) \<Rightarrow>
             (case run_step quic (e, spawned) of
                None \<Rightarrow> None
              | Some (Inl (e, spawned)) \<Rightarrow> Some (Inl (Ok (), e, spawned))
              | Some (Inr st) \<Rightarrow> Some (Inr st))))"

definition select_serve ::
  "('e, 'k, 'u, 'f, 'h, 'q, 'i, 'd, 'cert) host_ops \<Rightarrow> ('e, 'c, 's, 'r, 'n, 'x) quic_ops \<Rightarrow>
     'e \<Rightarrow> ((io_error + unit) \<times> 'e \<times> 'n list) option" where
  "select_serve host quic e = iterate (select_step host quic) (e, [])"

text \<open>
  The whole \<open>main\<close>; its value is the packet counts it prints at the end, with the connections it
  spawned tasks for. The outer \<open>None\<close> is a service that does not end, the inner one a panic.
\<close>

definition server_main ::
  "('e, 'p, 'x, 'i, 'cert, 'key, 'z, 'roots, 'q, 'd) tls_ops \<Rightarrow>
   ('e, 'k, 'u, 'f, 'h, 'q, 'i, 'd, 'cert) host_ops \<Rightarrow> ('e, 'c, 's, 'r, 'n, 'x) quic_ops \<Rightarrow>
   server_args \<Rightarrow> 'p process \<Rightarrow> 'e \<Rightarrow>
     (('x main_error + PacketCounts \<times> 'n list) option \<times> 'p process \<times> 'e) option" where
  "server_main tls host quic args ps e =
     (case server_setup tls host args ps e of
        (None, ps, e) \<Rightarrow> Some (None, ps, e)
      | (Some (Inl x), ps, e) \<Rightarrow> Some (Some (Err x), ps, e)
      | (Some (Inr endpoint), ps, e) \<Rightarrow>
          (case select_serve host quic e of
             None \<Rightarrow> None
           | Some (Inl x, e, _) \<Rightarrow> Some (Some (Err (IoError x)), ps, e)
           | Some (Inr _, e, spawned) \<Rightarrow>
               let (socket, e) = op_wait_idle host (ep_socket endpoint) (op_close host e)
               in Some (Some (Ok (counts socket, spawned)), ps, e)))"

section \<open>Lemmas\<close>

lemma PacketSocket_bind_Ok:
  "PacketSocket_bind b n f addr auth = Ok inner \<Longrightarrow>
     authenticator inner = auth \<and> counters inner = Counters_default"
  by (auto simp: PacketSocket_bind_def split: sum.splits)

lemma server_endpoint_Ok:
  assumes "server_endpoint mk d socket cfg lip = Ok ep"
  shows "cid_generator (ep_config ep) = (\<lambda>_. AuthCidGenerator_new ClientToServer lip)"
    and "ep_socket ep = socket"
  using assms by (auto simp: server_endpoint_def Let_def split: sum.splits)

text \<open>A server that comes up checks and issues tokens for the same direction and address.\<close>

lemma server_setup_Ok:
  fixes tls :: "('e, 'p, 'x, 'i, 'cert, 'key, 'z, 'roots, 'q, 'd) tls_ops"
  assumes "server_setup tls host args ps e = (Some (Ok ep), ps', e')"
  obtains server_ip where "ip (listen args) = V4 server_ip" "server_ip \<noteq> UNSPECIFIED"
    "cid_generator (ep_config ep) () = AuthCidGenerator_new ClientToServer server_ip"
    "authenticator (ep_socket ep) =
      (if no_dcid_validation args then None else Some (Authenticator_new ClientToServer server_ip))"
    "counters (ep_socket ep) = Counters_default"
proof (cases "ip (listen args)")
  case (V4 a)
  have "a \<noteq> UNSPECIFIED" using assms V4 by (auto simp: server_setup_def is_unspecified_iff)
  moreover obtain cfg socket where
    bind: "PacketSocket_bind (std_bind host) (set_nonblocking host) (from_std host) (listen args)
      (if no_dcid_validation args then None else Some (Authenticator_new ClientToServer a)) = Ok socket"
    and ep: "server_endpoint (new_endpoint host) (endpoint_default host) socket cfg a =
      (Ok ep :: 'x Error + _)"
    using assms V4
    by (auto simp: server_setup_def Let_def split: if_splits prod.splits sum.splits option.splits)
  ultimately show thesis
    using that [OF V4] PacketSocket_bind_Ok [OF bind] server_endpoint_Ok [OF ep] by simp
qed (use assms in \<open>simp add: server_setup_def\<close>)

text \<open>What a turn of the \<open>select!\<close> waits for: a connection, or the end of the service.\<close>

definition select_accept ::
  "('e, 'k, 'u, 'f, 'h, 'q, 'i, 'd, 'cert) host_ops \<Rightarrow> ('e, 'c, 's, 'r, 'n, 'x) quic_ops \<Rightarrow>
     'e \<Rightarrow> ((io_error + unit) + 'n) \<times> 'e" where
  "select_accept host quic e =
     (case op_ctrl_c host e of
        (Some interrupted, e) \<Rightarrow> (Inl interrupted, e)
      | (None, e) \<Rightarrow>
          (case op_accept quic e of
             (None, e) \<Rightarrow> (Inl (Ok ()), e)
           | (Some incoming, e) \<Rightarrow> (Inr incoming, e)))"

interpretation sel: accept_loop "select_accept host quic" "select_step host quic" "\<lambda>z e spawned. (z, e, spawned)"
  for host :: "('e, 'k, 'u, 'f, 'h, 'q, 'i, 'd, 'cert) host_ops" and quic :: "('e, 'c, 's, 'r, 'n, 'x) quic_ops"
  by unfold_locales
    (auto simp: select_step_def select_accept_def run_step_def split: prod.splits option.splits)

text \<open>Without an interrupt the \<open>select!\<close> is the accept loop.\<close>

lemma select_serve_uninterrupted:
  assumes "\<And>e. op_ctrl_c host e = (None, e)" and "select_serve host quic e = Some (z, e', spawned)"
  shows "run_echo_server quic e = Some (e', spawned)"
proof -
  let ?Q = "\<lambda>st (z, e', spawned). iterate (run_step quic) st = Some (e', spawned)"
  have "?Q (e, []) (z, e', spawned)"
    using assms(2) [unfolded select_serve_def] TrueI
  proof (induction rule: iterate_rule [where invar = "\<lambda>_. True"])
    case (stop st out)
    then show ?case
      by (cases st) (auto simp: select_step_def assms(1) iterate.simps [of "run_step quic"]
          split: option.splits sum.splits)
  next
    case (again st st')
    then have "run_step quic st = Some (Inr st')"
      by (cases st) (auto simp: select_step_def assms(1) split: option.splits sum.splits)
    with again show ?case by (simp add: iterate.simps [of "run_step quic" st])
  qed
  then show ?thesis by (simp add: run_echo_server_def)
qed

section \<open>An example\<close>

text \<open>
  A host on which every call succeeds; it is interrupted when the environment's number is below 5.
\<close>

definition ex_host :: "(nat, unit, unit, unit, unit, bytes list, nat, 'd, nat) host_ops" where
  "ex_host =
     \<lparr>std_bind = \<lambda>a. Ok (), set_nonblocking = Ok, from_std = Ok,
      udp = \<lparr>op_local_addr = \<lambda>e. Ok \<lparr>ip = V4 LOCALHOST, port = 4433\<rparr>, op_poll_recv_ready = \<lambda>e. (Pending, e),
        op_try_recv_from = \<lambda>n e. (Err \<lparr>kind = WouldBlock\<rparr>, e), op_try_send_to = \<lambda>p a e. (Ok (length p), e),
        op_writable = (), op_poll_writable = \<lambda>f e. (Ready (Ok ()), f, e)\<rparr>,
      new_endpoint = \<lambda>c s i. Ok (), endpoint_default = \<lparr>cid_generator = \<lambda>_. AuthCidGenerator_new ServerToClient UNSPECIFIED\<rparr>,
      fs_write = \<lambda>f c e. (Ok (), e), fs_read = \<lambda>f e. (Ok 5, e),
      op_ctrl_c = \<lambda>e. (if e < 5 then Some (Ok ()) else None, e), op_close = id, op_wait_idle = Pair\<rparr>"

abbreviation ex_host1 :: "(nat, unit, unit, unit, unit, bytes list, nat, unit, nat) host_ops" where
  "ex_host1 \<equiv> ex_host"

definition ex_server_args :: server_args where
  "ex_server_args = \<lparr>listen = \<lparr>ip = V4 LOCALHOST, port = 4433\<rparr>, cert_out = ''server_cert.der'',
     srv_server_name = ''localhost'', no_dcid_validation = False\<rparr>"

text \<open>Connections arrive as long as the environment's number lasts.\<close>

definition ex_quic :: "(nat, unit, nat, nat, nat, unit) quic_ops" where
  "ex_quic =
     \<lparr>op_open_bi = \<lambda>c e. (Err LocallyClosed, e), op_accept_bi = \<lambda>c e. (Err LocallyClosed, e),
      op_write_all = \<lambda>s p e. (Ok (), e), op_finish = \<lambda>s e. (Ok (), e), op_read_to_end = \<lambda>r n e. (Ok [], e),
      op_accept = \<lambda>e. (if 0 < e then (Some e, e - 1) else (None, e)), op_incoming = \<lambda>i e. (Ok (), e),
      op_now = \<lambda>e. (0, e)\<rparr>"

lemma ex_select_accept:
  "select_accept ex_host1 ex_quic e = (if e < 5 then (Inl (Ok ()), e) else (Inr e, e - 1))"
  by (simp add: select_accept_def ex_host_def ex_quic_def)

lemma ex_progress: "select_accept ex_host1 ex_quic e = (Inr i, e') \<Longrightarrow> e' < e"
  by (auto simp: ex_select_accept split: if_splits)

lemma ex_server_setup:
  "\<exists>ep ps'. server_setup ex_tls1 ex_host1 ex_server_args \<lparr>install_done = False, provider = None\<rparr> 5 =
     (Some (Ok ep), ps', 7)"
  by (simp add: server_setup_def ex_server_args_def ex_tls_def ex_host_def self_signed_server_config_def
      transport_config_def PacketSocket_bind_def local_addr_def server_endpoint_def is_unspecified_iff
      LOCALHOST_def UNSPECIFIED_def Let_def)

section \<open>Properties\<close>

text \<open>C31: A server that came up serves until it is interrupted or its endpoint closes. When
  finitely many connections arrive before that, \<open>main\<close> returns: one task has been spawned per
  accepted connection in the order of arrival, a failure to wait for the interrupt is returned as
  the I/O error without closing the endpoint, and otherwise the endpoint is closed and \<open>main\<close> succeeds
  with the counts the socket has once the endpoint is idle. Where no interrupt comes, what the
  service did is \<open>run_echo_server\<close>.\<close>

theorem server_serves_until_interrupted:
  assumes "server_setup tls host args ps e = (Some (Ok ep), ps', e1)"
    and "\<And>e i e'. select_accept host quic e = (Inr i, e') \<Longrightarrow> m e' < (m e :: nat)"
  shows "\<exists>incomings e2 z e3.
    accepted (select_accept host quic) e1 incomings e2 \<and> select_accept host quic e2 = (Inl z, e3) \<and>
    server_main tls host quic args ps e =
      (case z of
         Inl x \<Rightarrow> Some (Some (Err (IoError x)), ps', e3)
       | Inr _ \<Rightarrow> (case op_wait_idle host (ep_socket ep) (op_close host e3) of
           (socket, e4) \<Rightarrow> Some (Some (Ok (counts socket, incomings)), ps', e4))) \<and>
    ((\<forall>e. op_ctrl_c host e = (None, e)) \<longrightarrow> z = Ok () \<and> run_echo_server quic e1 = Some (e3, incomings))"
proof -
  obtain incomings e2 z e3 where
      run: "select_serve host quic e1 = Some (z, e3, incomings)"
    and acc: "accepted (select_accept host quic) e1 incomings e2" "select_accept host quic e2 = (Inl z, e3)"
    using sel.loop_spawns_all [where host = host and quic = quic and m = m and e = e1 and xs = "[]"] assms(2)
    by (auto simp: select_serve_def)
  have "z = Ok ()" if "\<forall>e. op_ctrl_c host e = (None, e)"
    using acc(2) that by (auto simp: select_accept_def split: prod.splits option.splits)
  then show ?thesis
    using acc run assms(1) select_serve_uninterrupted [OF _ run]
    by (intro exI [of _ incomings] exI [of _ e2] exI [of _ z] exI [of _ e3])
      (auto simp: server_main_def split: sum.split prod.split)
qed

theorem server_serves_until_interrupted_witness:
  "\<exists>counts ps'. server_main ex_tls1 ex_host1 ex_quic ex_server_args \<lparr>install_done = False, provider = None\<rparr> 5 =
     Some (Some (Ok (counts, [7, 6, 5])), ps', 4)"
proof -
  obtain ep ps' where s: "server_setup ex_tls1 ex_host1 ex_server_args \<lparr>install_done = False, provider = None\<rparr> 5 =
      (Some (Ok ep), ps', 7)"
    using ex_server_setup by blast
  obtain incomings e2 z e3 where
      "accepted (select_accept ex_host1 ex_quic) 7 incomings e2" "select_accept ex_host1 ex_quic e2 = (Inl z, e3)"
    and main: "server_main ex_tls1 ex_host1 ex_quic ex_server_args \<lparr>install_done = False, provider = None\<rparr> 5 =
      (case z of
         Inl x \<Rightarrow> Some (Some (Err (IoError x)), ps', e3)
       | Inr _ \<Rightarrow> (case op_wait_idle ex_host1 (ep_socket ep) (op_close ex_host1 e3) of
           (socket, e4) \<Rightarrow> Some (Some (Ok (counts socket, incomings)), ps', e4)))"
    using server_serves_until_interrupted [OF s, of ex_quic id] ex_progress by auto
  moreover from this(1,2) have "incomings = [7, 6, 5] \<and> z = Ok () \<and> e3 = 4"
    using accepted_unique [of "select_accept ex_host1 ex_quic" 7 incomings e2 z e3 "[7, 6, 5]" 4]
    by (auto simp: ex_select_accept)
  ultimately show ?thesis by (simp add: ex_host_def)
qed

end
