(* ===== verification/Client.thy ===== *)
theory Client
  imports Server
begin

text \<open>
  The ping client program \<open>src/bin/client.rs\<close>: the checks on its arguments, the set-up of its
  socket and endpoint, the loop that sends the pings, and the summary. The \<open>f64\<close> percentage of
  the summary is a parameter; durations are in nanoseconds.
\<close>

record client_args =
  server_addr :: SocketAddr
  cert_file :: string
  cl_server_name :: string
  ping_count :: u64
  interval_ms :: u64
  ping_size :: nat
  local_ip :: Ipv4Addr

section \<open>The ping loop\<close>

type_synonym 'e client_state = "'e \<times> nat list \<times> u64 \<times> u64"

text \<open>
  One turn of the loop with the round-trip times, the lost pings and the sequence number; the
  value of the loop is those three, \<open>None\<close> as the inner value is a panic.
\<close>

definition client_step ::
  "('e, 'c, 's, 'r, 'n, 'x) quic_ops \<Rightarrow> (u64 \<Rightarrow> 'e \<Rightarrow> 'e) \<Rightarrow> client_args \<Rightarrow> 'c \<Rightarrow> 'e client_state \<Rightarrow>
     ('e client_state option + 'e client_state) option" where
  "client_step quic sleep args connection st =
     (case st of (e, rtts, lost, seq) \<Rightarrow>
        if \<not> (ping_count args = 0 \<or> seq < ping_count args) then Some (Inl (Some (e, rtts, lost, seq)))
        else
          let e = (if 0 < seq \<and> interval_ms args \<noteq> 0 then sleep (interval_ms args) e else e) in
          (case ping_payload seq (ping_size args) of
             None \<Rightarrow> Some (Inl None)
           | Some payload \<Rightarrow>
               (case ping quic connection payload e of
                  (Inr rtt, e) \<Rightarrow> Some (Inr (e, rtts @ [rtt], lost, seq + 1))
                | (Inl _, e) \<Rightarrow> Some (Inr (e, rtts, lost + 1, seq + 1)))))"

definition client_loop ::
  "('e, 'c, 's, 'r, 'n, 'x) quic_ops \<Rightarrow> (u64 \<Rightarrow> 'e \<Rightarrow> 'e) \<Rightarrow> client_args \<Rightarrow> 'c \<Rightarrow> 'e \<Rightarrow>
     'e client_state option option" where
  "client_loop quic sleep args connection e = iterate (client_step quic sleep args connection) (e, [], 0, 0)"

section \<open>The summary\<close>

text \<open>The longest \<open>Duration\<close>: \<open>2 ^ 64 - 1\<close> seconds and \<open>10 ^ 9 - 1\<close> nanoseconds.\<close>

definition DURATION_MAX :: nat where [consts_simps]: "DURATION_MAX = 2 ^ 64 * 10 ^ 9 - 1"

text \<open>\<open>iter().sum::<Duration>()\<close> and \<open>Duration / u32\<close>, which panic on overflow and on zero.\<close>

definition sum_durations :: "nat list \<Rightarrow> nat option" where
  "sum_durations ds = (if sum_list ds \<le> DURATION_MAX then Some (sum_list ds) else None)"

definition div_duration :: "nat \<Rightarrow> u32 \<Rightarrow> nat option" where
  "div_duration d n = (if n = 0 then None else Some (d div unat n))"

record 'f summary =
  sum_sent :: u64
  sum_echoed :: nat
  sum_loss :: 'f
  sum_counts :: PacketCounts
  sum_rtts :: "(nat \<times> nat \<times> nat) option"

text \<open>\<open>loss_pct lost sent\<close> is the floating-point percentage; the \<open>None\<close> of the result is a panic.\<close>

definition print_summary ::
  "'f \<Rightarrow> (u64 \<Rightarrow> u64 \<Rightarrow> 'f) \<Rightarrow> u64 \<Rightarrow> nat list \<Rightarrow> u64 \<Rightarrow> PacketCounts \<Rightarrow> 'f summary option" where
  "print_summary zero loss_pct nsent rtts lost cnt =
     (let loss = (if nsent = 0 then zero else loss_pct lost nsent);
          line = \<lparr>sum_sent = nsent, sum_echoed = length rtts, sum_loss = loss, sum_counts = cnt, sum_rtts = None\<rparr>
      in if rtts = [] then Some line
         else do {
           let mn = Min (set rtts);
           let mx = Max (set rtts);
           total_rtt \<leftarrow> sum_durations rtts;
           avg \<leftarrow> div_duration total_rtt (of_nat (length rtts));
           Some (line\<lparr>sum_rtts := Some (mn, avg, mx)\<rparr>)
         })"

section \<open>The main program\<close>

text \<open>\<open>endpoint.connect\<close> and the wait for the connection, and Tokio's timer.\<close>

record ('e, 'h, 'q, 'i, 'd, 'u, 'n, 'c, 'x) dial_ops =
  op_dial :: "('h, 'q, 'i, 'd, 'u) Endpoint \<Rightarrow> SocketAddr \<Rightarrow> string \<Rightarrow> 'e \<Rightarrow> ('x + 'n) \<times> 'e"
  op_connected :: "'n \<Rightarrow> 'e \<Rightarrow> ('x ConnectionError + 'c) \<times> 'e"
  op_timer :: "u64 \<Rightarrow> 'e \<Rightarrow> 'e"

definition client_setup ::
  "('e, 'p, 'x, 'i, 'cert, 'key, 'z, 'roots, 'q, 'g \<Rightarrow> ('id \<times> 'g) option) tls_ops \<Rightarrow>
   ('e, 'k, 'u, 'f, 'h, 'q, 'i, 'g \<Rightarrow> ('id \<times> 'g) option, 'cert) host_ops \<Rightarrow>
   (bytes \<Rightarrow> 'id) \<Rightarrow> 'g rng \<Rightarrow> block_cipher \<Rightarrow> client_args \<Rightarrow> 'p process \<Rightarrow> 'e \<Rightarrow>
     ('x main_error + ('h, 'q, 'i, 'g \<Rightarrow> ('id \<times> 'g) option, 'u) Endpoint) option \<times> 'p process \<times> 'e" where
  "client_setup tls host cid_new rng aes args ps e =
     (if ping_size args > MAX_PING_BYTES then (Some (Err (PayloadTooLarge (ping_size args))), ps, e)
      else
        (case ip (server_addr args) of
           V6 a \<Rightarrow> (Some (Err (AddressNotIpv4 (V6 a))), ps, e)
         | V4 server_ip \<Rightarrow>
             let peers = \<lparr>client = local_ip args, server = server_ip\<rparr> in
             (case fs_read host (cert_file args) e of
                (Inl x, e) \<Rightarrow> (Some (Err (IoError x)), ps, e)
              | (Inr cert, e) \<Rightarrow>
                  let authenticator = Authenticator_new ServerToClient (local_ip args) in
                  (case PacketSocket_bind (std_bind host) (set_nonblocking host) (from_std host)
                          \<lparr>ip = V4 (local_ip args), port = 0\<rparr> (Some authenticator) of
                     Inl x \<Rightarrow> (Some (Err (IoError x)), ps, e)
                   | Inr socket \<Rightarrow>
                       (case client_config tls [cert] ps of
                          (None, ps) \<Rightarrow> (None, ps, e)
                        | (Some (Inl x), ps) \<Rightarrow> (Some (Err (LibraryError x)), ps, e)
                        | (Some (Inr cfg), ps) \<Rightarrow>
                            (case client_endpoint (new_endpoint host) (endpoint_default host) cid_new rng aes
                                    socket cfg peers of
                               Inl x \<Rightarrow> (Some (Err (LibraryError x)), ps, e)
                             | Inr endpoint \<Rightarrow> (Some (Ok endpoint), ps, e)))))))"

text \<open>
  The whole \<open>main\<close>: the outer \<open>None\<close> is a ping loop that does not end, the inner one a panic.
\<close>

definition client_main ::
  "('e, 'p, 'x, 'i, 'cert, 'key, 'z, 'roots, 'q, 'g \<Rightarrow> ('id \<times> 'g) option) tls_ops \<Rightarrow>
   ('e, 'k, 'u, 'f, 'h, 'q, 'i, 'g \<Rightarrow> ('id \<times> 'g) option, 'cert) host_ops \<Rightarrow>
   (bytes \<Rightarrow> 'id) \<Rightarrow> 'g rng \<Rightarrow> block_cipher \<Rightarrow>
   ('e, 'h, 'q, 'i, 'g \<Rightarrow> ('id \<times> 'g) option, 'u, 'n, 'c, 'x) dial_ops \<Rightarrow>
   ('e, 'c, 's, 'r, 'n, 'x) quic_ops \<Rightarrow> 'v \<Rightarrow> (u64 \<Rightarrow> u64 \<Rightarrow> 'v) \<Rightarrow> client_args \<Rightarrow> 'p process \<Rightarrow> 'e \<Rightarrow>
     ('x main_error + 'v summary) option option" where
  "client_main tls host cid_new rng aes dial quic zero loss_pct args ps e =
     (case client_setup tls host cid_new rng aes args ps e of
        (None, _, _) \<Rightarrow> Some None
      | (Some (Inl x), _, _) \<Rightarrow> Some (Some (Err x))
      | (Some (Inr endpoint), ps, e) \<Rightarrow>
          (case op_dial dial endpoint (server_addr args) (cl_server_name args) e of
             (Inl x, e) \<Rightarrow> Some (Some (Err (ConnectError x)))
           | (Inr connecting, e) \<Rightarrow>
               (case op_connected dial connecting e of
                  (Inl x, e) \<Rightarrow> Some (Some (Err (ConnectionFailed x)))
                | (Inr connection, e) \<Rightarrow>
                    (case client_loop quic (op_timer dial) args connection e of
                       None \<Rightarrow> None
                     | Some None \<Rightarrow> Some None
                     | Some (Some (e, rtts, lost, seq)) \<Rightarrow>
                         let (socket, e) = op_wait_idle host (ep_socket endpoint) (op_close host e) in
                         Some (map_option Inr (print_summary zero loss_pct seq rtts lost (counts socket)))))))"

section \<open>Reference definitions\<close>

text \<open>The pings with the given sequence numbers one after the other, and their results.\<close>

fun pings ::
  "('e, 'c, 's, 'r, 'n, 'x) quic_ops \<Rightarrow> (u64 \<Rightarrow> 'e \<Rightarrow> 'e) \<Rightarrow> client_args \<Rightarrow> 'c \<Rightarrow> nat list \<Rightarrow> 'e \<Rightarrow>
     ('x Error + nat) list \<times> 'e" where
  "pings quic sleep args c [] e = ([], e)"
| "pings quic sleep args c (k # ks) e =
     (let e = (if 0 < k \<and> interval_ms args \<noteq> 0 then sleep (interval_ms args) e else e);
          (r, e) = ping quic c (payload_ref (of_nat k) (ping_size args)) e;
          (rs, e) = pings quic sleep args c ks e
      in (r # rs, e))"

fun successes :: "('x + 'a) list \<Rightarrow> 'a list" where
  "successes [] = []"
| "successes (Inl _ # rs) = successes rs"
| "successes (Inr a # rs) = a # successes rs"

fun failures :: "('x + 'a) list \<Rightarrow> nat" where
  "failures [] = 0"
| "failures (Inl _ # rs) = Suc (failures rs)"
| "failures (Inr a # rs) = failures rs"

section \<open>Lemmas\<close>

lemma client_endpoint_Ok:
  assumes "client_endpoint mk d cid_new rng aes socket cfg peers = Ok ep"
  shows "cid_generator (ep_config ep) () = AuthCidGenerator_new ServerToClient (client peers)"
    and "ep_socket ep = socket"
    and "\<exists>cfg'. ep_default_client ep = Some cfg' \<and>
      dst_cid_provider cfg' = Some (initial_dst_cid_provider cid_new rng aes peers)"
  using assms by (auto simp: client_endpoint_def Let_def split: sum.splits)

lemma client_setup_no_wildcard:
  "fst (client_setup tls host cid_new rng aes args ps e) \<noteq> Some (Err AddressWildcard)"
  by (auto simp: client_setup_def Let_def split: IpAddr.splits prod.splits sum.splits option.splits)

lemma client_setup_Ok:
  fixes tls :: "('e, 'p, 'x, 'i, 'cert, 'key, 'z, 'roots, 'q, 'g \<Rightarrow> ('id \<times> 'g) option) tls_ops"
  assumes "client_setup tls host cid_new rng aes args ps e = (Some (Ok ep), ps', e')"
  obtains server_ip cfg where "ip (server_addr args) = V4 server_ip"
    "cid_generator (ep_config ep) () = AuthCidGenerator_new ServerToClient (local_ip args)"
    "authenticator (ep_socket ep) = Some (Authenticator_new ServerToClient (local_ip args))"
    "ep_default_client ep = Some cfg"
    "dst_cid_provider cfg =
      Some (initial_dst_cid_provider cid_new rng aes \<lparr>client = local_ip args, server = server_ip\<rparr>)"
proof (cases "ip (server_addr args)")
  case (V4 a)
  obtain cfg socket where
    bind: "PacketSocket_bind (std_bind host) (set_nonblocking host) (from_std host)
      \<lparr>ip = V4 (local_ip args), port = 0\<rparr> (Some (Authenticator_new ServerToClient (local_ip args))) = Ok socket"
    and ep: "client_endpoint (new_endpoint host) (endpoint_default host) cid_new rng aes socket cfg
      \<lparr>client = local_ip args, server = a\<rparr> = (Ok ep :: 'x Error + _)"
    using assms V4
    by (auto simp: client_setup_def Let_def split: if_splits prod.splits sum.splits option.splits)
  show thesis
    using that [OF V4] PacketSocket_bind_Ok [OF bind] client_endpoint_Ok [OF ep] by auto
qed (use assms in \<open>auto simp: client_setup_def split: if_splits\<close>)

lemma successes_failures: "length (successes rs) + failures rs = length rs"
  by (induction rs rule: successes.induct) simp_all

lemma length_pings: "length (fst (pings quic sleep args c ks e)) = length ks"
  by (induction ks arbitrary: e) (simp_all add: Let_def case_prod_beta)

lemma unat_lt_2_64: "unat (n :: u64) < 2 ^ 64"
  using unsigned_less [of n] by simp

lemma of_nat_less_count: "k \<le> unat n \<Longrightarrow> (of_nat k :: 'a::len word) < n \<longleftrightarrow> k < unat n"
  by (metis le_unat_uoi word_less_nat_alt)

lemma of_nat_pos_count: "k \<le> unat (n :: 'a::len word) \<Longrightarrow> 0 < (of_nat k :: 'a word) \<longleftrightarrow> 0 < k"
  by (metis le_unat_uoi unat_0 word_less_nat_alt)

lemma client_loop_from:
  assumes "ping_count args \<noteq> 0" and "k + n = unat (ping_count args)"
    and "pings quic sleep args c [k..<k + n] e = (rs, e')"
  shows "iterate (client_step quic sleep args c) (e, rtts, lost, of_nat k) =
    Some (Some (e', rtts @ successes rs, lost + of_nat (failures rs), ping_count args))"
  using assms(2,3)
proof (induction n arbitrary: k e rtts lost rs)
  case 0
  then show ?case
    using assms(1) of_nat_less_count [of k "ping_count args"]
    by (simp add: iterate.simps client_step_def)
next
  case (Suc n)
  let ?e = "if 0 < k \<and> interval_ms args \<noteq> 0 then sleep (interval_ms args) e else e"
  obtain r e1 where p: "ping quic c (payload_ref (of_nat k) (ping_size args)) ?e = (r, e1)" by fastforce
  obtain rs1 where rs1: "pings quic sleep args c [Suc k..<Suc k + n] e1 = (rs1, e')" and rs: "rs = r # rs1"
    using Suc.prems(2) p by (auto simp: upt_rec [of k] Let_def split: prod.splits simp del: upt_Suc)
  have k: "k < unat (ping_count args)" using Suc.prems(1) by simp
  let ?rtts = "case r of Inl _ \<Rightarrow> rtts | Inr rtt \<Rightarrow> rtts @ [rtt]"
  let ?lost = "case r of Inl _ \<Rightarrow> lost + 1 | Inr _ \<Rightarrow> lost"
  have step: "client_step quic sleep args c (e, rtts, lost, of_nat k) = Some (Inr (e1, ?rtts, ?lost, of_nat (Suc k)))"
    using k p assms(1) of_nat_less_count [of k "ping_count args"] of_nat_pos_count [of k "ping_count args"]
    by (cases r) (simp_all add: client_step_def ping_payload_eq Let_def add.commute)
  have "iterate (client_step quic sleep args c) (e, rtts, lost, of_nat k) =
      iterate (client_step quic sleep args c) (e1, ?rtts, ?lost, of_nat (Suc k))"
    by (subst iterate.simps) (simp add: step)
  also have "\<dots> = Some (Some (e', ?rtts @ successes rs1, ?lost + of_nat (failures rs1), ping_count args))"
    using Suc.IH [of "Suc k", OF _ rs1] Suc.prems(1) by simp
  finally show ?case by (cases r) (simp_all add: rs)
qed

lemma client_loop_forever:
  assumes "ping_count args = 0"
  shows "client_loop quic sleep args c e = None"
  unfolding client_loop_def
proof (rule iterate_diverges [where invar = "\<lambda>_. True"])
  fix st :: "'a client_state"
  show "\<exists>st'. client_step quic sleep args c st = Some (Inr st') \<and> True"
    using assms by (cases st) (auto simp: client_step_def ping_payload_eq Let_def split: prod.split sum.split)
qed simp

lemma sum_list_bounds:
  assumes "xs \<noteq> []"
  shows "length xs * Min (set xs) \<le> sum_list xs" and "sum_list xs \<le> length xs * Max (set xs :: nat set)"
proof -
  have "sum_list (map (\<lambda>_. Min (set xs)) xs) \<le> sum_list (map id xs)"
    by (rule sum_list_mono) simp
  then show "length xs * Min (set xs) \<le> sum_list xs" by (simp add: sum_list_triv)
  have "sum_list (map id xs) \<le> sum_list (map (\<lambda>_. Max (set xs)) xs)"
    by (rule sum_list_mono) simp
  then show "sum_list xs \<le> length xs * Max (set xs)" by (simp add: sum_list_triv)
qed

lemma print_summary_None_iff:
  "print_summary zero loss_pct nsent rtts lost cnt = None \<longleftrightarrow>
     DURATION_MAX < sum_list rtts \<or> (rtts \<noteq> [] \<and> length rtts mod 2 ^ 32 = 0)"
  by (auto simp: print_summary_def sum_durations_def div_duration_def Let_def word_of_nat_eq_0_iff
      dvd_eq_mod_eq_0 split: bind_splits)

lemma div_duration_small:
  "0 < n \<Longrightarrow> n < 2 ^ 32 \<Longrightarrow> div_duration d (of_nat n) = Some (d div n)"
  by (auto simp: div_duration_def word_of_nat_eq_0_iff dvd_eq_mod_eq_0 unat_of_nat take_bit_nat_eq_self)

text \<open>With a positive count the program ends, and it pings only payloads within the limit.\<close>

lemma client_loop_ends: "ping_count args \<noteq> 0 \<Longrightarrow> client_loop quic sleep args c e \<noteq> None"
  using client_loop_from [of args 0 "unat (ping_count args)" quic sleep c e _ _ "[]" 0]
  by (cases "pings quic sleep args c [0..<unat (ping_count args)] e") (auto simp: client_loop_def)

lemma client_main_ends:
  "ping_count args \<noteq> 0 \<Longrightarrow> client_main tls host cid_new rng aes dial quic zero loss_pct args ps e \<noteq> None"
  by (auto simp: client_main_def Let_def client_loop_ends split: prod.splits sum.splits option.splits)

lemma client_main_too_large:
  "MAX_PING_BYTES < ping_size args \<Longrightarrow>
     client_main tls host cid_new rng aes dial quic zero loss_pct args ps e =
       Some (Some (Err (PayloadTooLarge (ping_size args))))"
  by (simp add: client_main_def client_setup_def)

section \<open>Properties\<close>

text \<open>C25: With a positive count the client's loop ends after exactly that many pings, sent in
  sequence-number order with the payload of their own number and a pause before every ping
  but the first when an interval is set; the recorded times are those of the successful ones
  in order, and together with the lost ones they are all. With a count of 0 it never ends.\<close>

theorem client_loop_sends_the_count:
  "(ping_count args = 0 \<longrightarrow> client_loop quic sleep args c e = None) \<and>
   (ping_count args \<noteq> 0 \<longrightarrow>
      (\<exists>rs e' lost. pings quic sleep args c [0..<unat (ping_count args)] e = (rs, e') \<and>
         client_loop quic sleep args c e = Some (Some (e', successes rs, lost, ping_count args)) \<and>
         unat lost = failures rs \<and> length (successes rs) + unat lost = unat (ping_count args)))"
proof -
  obtain rs e' where p: "pings quic sleep args c [0..<0 + unat (ping_count args)] e = (rs, e')" by fastforce
  have all: "length (successes rs) + failures rs = unat (ping_count args)"
    using successes_failures [of rs] length_pings [of quic sleep args c "[0..<0 + unat (ping_count args)]" e] p
    by simp
  then have "failures rs < 2 ^ 64" using unat_lt_2_64 [of "ping_count args"] by simp
  then have "unat (of_nat (failures rs) :: u64) = failures rs"
    by (simp add: unat_of_nat take_bit_nat_eq_self)
  then show ?thesis
    using client_loop_from [OF _ _ p, of "[]" 0] client_loop_forever [of args quic sleep c e] p all
    by (auto simp: client_loop_def)
qed

definition ex_client_args :: client_args where
  "ex_client_args = \<lparr>server_addr = \<lparr>ip = V4 LOCALHOST, port = 4433\<rparr>, cert_file = ''server_cert.der'',
     cl_server_name = ''localhost'', ping_count = 3, interval_ms = 500, ping_size = 64, local_ip = LOCALHOST\<rparr>"

theorem client_loop_sends_the_count_witness:
  "\<exists>(rs :: (string Error + nat) list) e' lost. client_loop (with_echo_task False False pipe_ops) (\<lambda>_ e. e) ex_client_args ()
      (Pipes ([], False) ([], False)) =
      Some (Some (e', successes rs, lost, 3)) \<and> length (successes rs) + unat lost = 3"
  using client_loop_sends_the_count [of ex_client_args
       "with_echo_task False False pipe_ops" "\<lambda>_ e. e" "()" "Pipes ([], False) ([], False)"]
  by (simp add: ex_client_args_def) blast

text \<open>C33: With at least one and fewer than \<open>2 ^ 32\<close> round-trip times, whose sum does not
  overflow, the summary is printed and its average lies between its minimum and its maximum,
  which are times of the list. It panics exactly when the sum overflows a \<open>Duration\<close> or the
  number of times is a positive multiple of \<open>2 ^ 32\<close>, which the cast to \<open>u32\<close> turns into a
  division by zero.\<close>

theorem summary_average_between_extremes:
  "(print_summary zero loss_pct nsent rtts lost cnt = None \<longleftrightarrow>
      DURATION_MAX < sum_list rtts \<or> (rtts \<noteq> [] \<and> length rtts mod 2 ^ 32 = 0)) \<and>
   (rtts \<noteq> [] \<and> length rtts < 2 ^ 32 \<and> sum_list rtts \<le> DURATION_MAX \<longrightarrow>
      (\<exists>s mn avg mx. print_summary zero loss_pct nsent rtts lost cnt = Some s \<and>
         sum_rtts s = Some (mn, avg, mx) \<and> mn \<le> avg \<and> avg \<le> mx \<and> mn \<in> set rtts \<and> mx \<in> set rtts))"
proof -
  let ?avg = "sum_list rtts div length rtts"
  have "Min (set rtts) \<le> ?avg" "?avg \<le> Max (set rtts)" if "rtts \<noteq> []"
  proof -
    have len: "0 < length rtts" using that by simp
    then show "Min (set rtts) \<le> ?avg"
      using sum_list_bounds(1) [OF that] by (simp add: less_eq_div_iff_mult_less_eq mult.commute)
    show "?avg \<le> Max (set rtts)"
      using div_le_mono [OF sum_list_bounds(2) [OF that], of "length rtts"] len by simp
  qed
  moreover have "div_duration (sum_list rtts) (of_nat (length rtts)) = Some ?avg"
    if "rtts \<noteq> []" "length rtts < 2 ^ 32"
    using that by (intro div_duration_small) simp_all
  ultimately show ?thesis
    by (auto simp: print_summary_None_iff) (auto simp: print_summary_def sum_durations_def Let_def)
qed

theorem summary_average_between_extremes_witness:
  "\<exists>s mn avg mx. print_summary 0 (\<lambda>l n. unat l * 100 div unat n) 3 [5, 3, 9] 0
      \<lparr>sent = 8, sent_bytes = 900, received = 8, received_bytes = 900, rejected = 0\<rparr> = Some s \<and>
    sum_rtts s = Some (mn, avg, mx) \<and> mn \<le> avg \<and> avg \<le> mx"
  using summary_average_between_extremes [of 0 "\<lambda>l n. unat l * 100 div unat n" 3 "[5, 3, 9]" 0
      "\<lparr>sent = 8, sent_bytes = 900, received = 8, received_bytes = 900, rejected = 0\<rparr>"]
  by (auto simp: consts_simps)

end
