(* ===== verification/Blaster_Packet.thy ===== *)
theory Blaster_Packet
  imports Auth_Filter
begin

text \<open>
  The packets of the load generator \<open>src/bin/blaster.rs\<close>: the Initial template built once at
  start-up, the SplitMix64 generator, and the rewriting of the template's destination
  connection ID before every send.
\<close>

section \<open>The generator\<close>

datatype SplitMix64 = SplitMix64 u64

text \<open>The bijective mixing of a state into an output, as the statements of \<open>next\<close> compose it.\<close>

definition splitmix_output :: "u64 \<Rightarrow> u64" where
  "splitmix_output state =
     (let z = state;
          z = (z XOR drop_bit 30 z) * 0xbf58476d1ce4e5b9;
          z = (z XOR drop_bit 27 z) * 0x94d049bb133111eb
      in z XOR drop_bit 31 z)"

fun SplitMix64_next :: "SplitMix64 \<Rightarrow> u64 \<times> SplitMix64" where
  "SplitMix64_next (SplitMix64 s) =
     (let s = s + 0x9e3779b97f4a7c15 in (splitmix_output s, SplitMix64 s))"

section \<open>The template\<close>

definition MIN_INITIAL_DATAGRAM :: nat where [consts_simps]: "MIN_INITIAL_DATAGRAM = 1200"
definition PACKET_NUMBER_LEN :: nat where [consts_simps]: "PACKET_NUMBER_LEN = 4"

record InitialTemplate =
  template_bytes :: bytes
  dcid_offset :: nat

text \<open>The error strings of \<open>new\<close>, one constructor per message, with the size they print.\<close>

datatype template_error =
    SizeBelowMinimum nat
  | SizeAboveDatagram nat
  | SizeBelowHeader nat
  | LengthNeedsLongerVarint nat

definition checked_sub :: "nat \<Rightarrow> nat \<Rightarrow> nat option" where
  "checked_sub a b = (if b \<le> a then Some (a - b) else None)"

definition u16_try_from :: "nat \<Rightarrow> u16 option" where
  "u16_try_from n = (if n \<le> 65535 then Some (of_nat n) else None)"

text \<open>\<open>Vec::resize\<close>: truncates, or pads with the given value.\<close>

definition resize :: "'a list \<Rightarrow> nat \<Rightarrow> 'a \<Rightarrow> 'a list" where
  "resize xs n x = take n xs @ replicate (n - length xs) x"

definition InitialTemplate_new :: "nat \<Rightarrow> (template_error + InitialTemplate) option" where
  "InitialTemplate_new sz =
     (if sz < MIN_INITIAL_DATAGRAM then Some (Err (SizeBelowMinimum sz))
      else if sz > 65535 then Some (Err (SizeAboveDatagram sz))
      else
        let bytes = [0xc3];
            bytes = bytes @ be_bytes 4 (1 :: u32);
            bytes = bytes @ [of_nat TOKEN_LEN];
            offset = length bytes;
            bytes = bytes @ replicate TOKEN_LEN 0;
            bytes = bytes @ [of_nat TOKEN_LEN];
            bytes = bytes @ replicate TOKEN_LEN 0x5a;
            bytes = bytes @ [0x00]
        in (case checked_sub sz (length bytes + 2) of
              None \<Rightarrow> Some (Err (SizeBelowHeader sz))
            | Some remaining \<Rightarrow>
                (case u16_try_from remaining of
                   None \<Rightarrow> Some (Err (LengthNeedsLongerVarint sz))
                 | Some len \<Rightarrow>
                     if \<not> len < 0x4000 then None
                     else
                       let bytes = bytes @ be_bytes 2 (0x4000 OR len);
                           bytes = bytes @ replicate PACKET_NUMBER_LEN 0;
                           bytes = resize bytes sz 0x42
                       in if length bytes \<noteq> sz then None
                          else Some (Ok \<lparr>template_bytes = bytes, dcid_offset = offset\<rparr>))))"

section \<open>Rewriting the connection ID\<close>

text \<open>The byte order of the machine the program is built for.\<close>

datatype endianness = LittleEndian | BigEndian

fun to_ne_bytes :: "endianness \<Rightarrow> u64 \<Rightarrow> bytes" where
  "to_ne_bytes LittleEndian w = le_bytes 8 w"
| "to_ne_bytes BigEndian w = be_bytes 8 w"

text \<open>
  The loop over \<open>dcid.chunks_mut(8)\<close>: each chunk is replaced by the first bytes of one output.
  \<open>None\<close> is the panic of \<open>expect\<close> when a chunk is longer than a word.
\<close>

fun fill_words :: "endianness \<Rightarrow> bytes list \<Rightarrow> SplitMix64 \<Rightarrow> (bytes list \<times> SplitMix64) option" where
  "fill_words ne [] rng = Some ([], rng)"
| "fill_words ne (chunk # rest) rng = do {
     let (w, rng) = SplitMix64_next rng;
     let word = to_ne_bytes ne w;
     prefix \<leftarrow> slice_get word 0 (length chunk);
     chunk' \<leftarrow> copy_into chunk 0 (length chunk) prefix;
     (rest', rng) \<leftarrow> fill_words ne rest rng;
     Some (chunk' # rest', rng)
   }"

definition randomize_dcid ::
  "endianness \<Rightarrow> InitialTemplate \<Rightarrow> SplitMix64 \<Rightarrow> (InitialTemplate \<times> SplitMix64) option" where
  "randomize_dcid ne t rng = do {
     dcid \<leftarrow> slice_get (template_bytes t) (dcid_offset t) (dcid_offset t + TOKEN_LEN);
     (chunks', rng) \<leftarrow> fill_words ne (chunks 8 dcid) rng;
     bytes' \<leftarrow> copy_into (template_bytes t) (dcid_offset t) (dcid_offset t + TOKEN_LEN) (concat chunks');
     Some (t\<lparr>template_bytes := bytes'\<rparr>, rng)
   }"

section \<open>Reference definitions\<close>

text \<open>The packet an Initial of the given size with the given destination ID is.\<close>

definition initial_packet :: "nat \<Rightarrow> bytes \<Rightarrow> bytes" where
  "initial_packet sz dcid =
     long_header 0xc3 [0, 0, 0, 1] dcid
       (20 # replicate 20 0x5a @ [0] @ be_bytes 2 (0x4000 OR of_nat (sz - 50) :: u16) @
        replicate 4 0 @ replicate (sz - 54) 0x42)"

text \<open>The \<open>n\<close>-th output after seeding with \<open>s\<close>, counted from 1, the generator
  after \<open>n\<close> outputs, and the ID made of the three outputs after the \<open>n\<close>-th.\<close>

definition nth_output :: "u64 \<Rightarrow> nat \<Rightarrow> u64" where
  "nth_output s n = splitmix_output (s + of_nat n * 0x9e3779b97f4a7c15)"

definition rng_at :: "u64 \<Rightarrow> nat \<Rightarrow> SplitMix64" where
  "rng_at s n = SplitMix64 (s + of_nat n * 0x9e3779b97f4a7c15)"

definition dcid_of :: "endianness \<Rightarrow> u64 \<Rightarrow> nat \<Rightarrow> bytes" where
  "dcid_of ne s n = to_ne_bytes ne (nth_output s (n + 1)) @ to_ne_bytes ne (nth_output s (n + 2)) @
     take 4 (to_ne_bytes ne (nth_output s (n + 3)))"

section \<open>The generator does not repeat\<close>

lemma drop_bit_fixpoint:
  fixes d :: "'a::len word"
  assumes "d = drop_bit k d" and "0 < k"
  shows "d = 0"
proof -
  have all: "d = drop_bit (n * k) d" for n
  proof (induction n)
    case (Suc n)
    have "drop_bit (Suc n * k) d = drop_bit (n * k) (drop_bit k d)" by (simp add: add.commute)
    then show ?case using Suc assms(1) by simp
  qed simp
  show ?thesis
  proof (rule bit_word_eqI)
    fix i :: nat
    have "LENGTH('a) \<le> LENGTH('a) * k + i" using assms(2) by (simp add: trans_le_add1)
    then have "\<not> bit d (LENGTH('a) * k + i)" using bit_imp_le_length [of d] by fastforce
    then show "bit d i = bit 0 i" using all [of "LENGTH('a)"] by (metis bit_drop_bit_eq bit_0_eq bot_apply bot_bool_def comp_apply)
  qed
qed

lemma xorshift_inject:
  fixes x y :: "'a::len word"
  assumes "x XOR drop_bit k x = y XOR drop_bit k y" and "0 < k"
  shows "x = y"
proof -
  have "(x XOR y) XOR drop_bit k (x XOR y) = (x XOR drop_bit k x) XOR (y XOR drop_bit k y)"
    by (simp add: xor.left_commute xor.assoc)
  then have "(x XOR y) XOR drop_bit k (x XOR y) = 0" by (simp only: assms(1) xor_self_eq)
  then have "x XOR y = drop_bit k (x XOR y)" by (simp only: xor_eq_zero_iff)
  then have "x XOR y = 0" using assms(2) by (rule drop_bit_fixpoint)
  then show ?thesis by simp
qed

lemma mult_inverse_inject:
  fixes a :: "'a::len word"
  assumes "b * a = 1" and "x * a = y * a"
  shows "x = y"
  using assms by (metis mult.assoc mult.commute mult.right_neutral)

lemma splitmix_output_inject: "splitmix_output s = splitmix_output s' \<longleftrightarrow> s = s'"
proof
  let ?a = "\<lambda>z. (z XOR drop_bit 30 z) * 0xbf58476d1ce4e5b9 :: u64"
  let ?b = "\<lambda>z. (z XOR drop_bit 27 z) * 0x94d049bb133111eb :: u64"
  assume "splitmix_output s = splitmix_output s'"
  then have "?b (?a s) = ?b (?a s')"
    unfolding splitmix_output_def Let_def by (rule xorshift_inject) simp
  then have "?a s XOR drop_bit 27 (?a s) = ?a s' XOR drop_bit 27 (?a s')"
    by (rule mult_inverse_inject [of "0x319642b2d24d8ec3", rotated]) simp
  then have "?a s = ?a s'" by (rule xorshift_inject) simp
  then have "s XOR drop_bit 30 s = s' XOR drop_bit 30 s'"
    by (rule mult_inverse_inject [of "0x96de1b173f119089", rotated]) simp
  then show "s = s'" by (rule xorshift_inject) simp
qed simp

lemma nth_output_inject:
  assumes "nth_output s (a * m + c) = nth_output s (a * n + c)"
    and "(b :: u64) * of_nat a = 1" and "m < 2 ^ 64" and "n < 2 ^ 64"
  shows "m = n"
proof -
  have "(of_nat (a * m) :: u64) * 0x9e3779b97f4a7c15 = of_nat (a * n) * 0x9e3779b97f4a7c15"
    using assms(1) by (simp add: nth_output_def splitmix_output_inject algebra_simps)
  then have "(of_nat (a * m) :: u64) = of_nat (a * n)"
    by (rule mult_inverse_inject [of "0xf1de83e19937733d", rotated]) simp
  then have "of_nat m * (of_nat a :: u64) = of_nat n * of_nat a"
    by (simp only: of_nat_mult mult.commute)
  then have "(of_nat m :: u64) = of_nat n" by (rule mult_inverse_inject [OF assms(2)])
  moreover have "take_bit 64 m = m" "take_bit 64 n = n"
    using assms(3,4) by (simp_all only: take_bit_nat_eq_self_iff)
  ultimately show ?thesis by (simp add: word_of_nat_eq_iff)
qed

section \<open>The template is an Initial packet\<close>

lemma InitialTemplate_new_eq:
  "InitialTemplate_new sz =
     (if sz < 1200 then Some (Err (SizeBelowMinimum sz))
      else if sz > 65535 then Some (Err (SizeAboveDatagram sz))
      else if sz \<ge> 16434 then None
      else Some (Ok \<lparr>template_bytes = initial_packet sz (replicate 20 0), dcid_offset = 6\<rparr>))"
proof -
  have un: "(of_nat n :: u16) < 0x4000 \<longleftrightarrow> n < 0x4000" if "n \<le> 65535" for n
    using that by (simp add: word_less_nat_alt unat_of_nat take_bit_nat_eq_self)
  have lt: "(of_nat (sz - 50) :: u16) < 0x4000 \<longleftrightarrow> sz < 16434" if "1200 \<le> sz" "sz \<le> 65535"
    using un [of "sz - 50"] that by (simp del: of_nat_diff) linarith
  have v: "be_bytes 4 (1 :: u32) = [0, 0, 0, 1]" by code_simp
  show ?thesis
    by (auto simp: InitialTemplate_new_def consts_simps v lt checked_sub_def u16_try_from_def Let_def
        resize_def initial_packet_def long_header_def simp del: of_nat_diff)
qed

lemma length_initial_packet: "54 \<le> sz \<Longrightarrow> length dcid = 20 \<Longrightarrow> length (initial_packet sz dcid) = sz"
  by (simp add: initial_packet_def long_header_def)

lemma destination_cid_initial_packet:
  "length dcid = 20 \<Longrightarrow> destination_cid (initial_packet sz dcid) = Some dcid"
  by (simp add: initial_packet_def destination_cid_long is_long_def)

lemma length_to_ne_bytes [simp]: "length (to_ne_bytes ne w) = 8"
  by (cases ne) simp_all

lemma to_ne_bytes_inject: "to_ne_bytes ne v = to_ne_bytes ne w \<longleftrightarrow> v = w"
proof -
  have "le_bytes 8 v = le_bytes 8 w \<longleftrightarrow> v = w"
    using be64.enc_inject [of v w] by (simp add: be_bytes_def)
  then show ?thesis by (cases ne) (simp_all add: be_bytes_def)
qed

lemma length_dcid_of [simp]: "length (dcid_of ne s n) = 20"
  by (simp add: dcid_of_def)

lemma rng_at_0: "rng_at s 0 = SplitMix64 s"
  by (simp add: rng_at_def)

lemma SplitMix64_next_nth: "SplitMix64_next (rng_at s n) = (nth_output s (Suc n), rng_at s (Suc n))"
  by (simp add: rng_at_def nth_output_def Let_def algebra_simps)

lemma fill_words_three:
  assumes "length c1 = 8" and "length c2 = 8" and "length c3 = 4"
  shows "fill_words ne [c1, c2, c3] (rng_at s n) =
    Some ([to_ne_bytes ne (nth_output s (n + 1)), to_ne_bytes ne (nth_output s (n + 2)),
       take 4 (to_ne_bytes ne (nth_output s (n + 3)))], rng_at s (n + 3))"
  using assms by (simp add: SplitMix64_next_nth slice_get_def copy_into_def numeral_3_eq_3)

lemma chunks_20:
  assumes "length d = 20"
  shows "chunks 8 d = [take 8 d, take 8 (drop 8 d), drop 16 d]"
proof -
  have "d \<noteq> []" "drop 8 d \<noteq> []" "drop 16 d \<noteq> []" using assms by auto
  then show ?thesis using assms by (simp add: chunks_step)
qed

lemma randomize_dcid_general:
  assumes "dcid_offset t + 20 \<le> length (template_bytes t)"
  shows "randomize_dcid ne t (rng_at s n) =
    Some (t\<lparr>template_bytes := take (dcid_offset t) (template_bytes t) @ dcid_of ne s n @
       drop (dcid_offset t + 20) (template_bytes t)\<rparr>, rng_at s (n + 3))"
proof -
  let ?d = "take 20 (drop (dcid_offset t) (template_bytes t))"
  have d: "length ?d = 20" using assms by simp
  have "fill_words ne (chunks 8 ?d) (rng_at s n) =
    Some ([to_ne_bytes ne (nth_output s (n + 1)), to_ne_bytes ne (nth_output s (n + 2)),
       take 4 (to_ne_bytes ne (nth_output s (n + 3)))], rng_at s (n + 3))"
    unfolding chunks_20 [OF d] using d by (intro fill_words_three) simp_all
  then show ?thesis
    using assms by (simp add: randomize_dcid_def consts_simps slice_get_def copy_into_def dcid_of_def)
qed

lemma randomize_dcid_nth:
  assumes "length d = 20"
  shows "randomize_dcid ne \<lparr>template_bytes = initial_packet sz d, dcid_offset = 6\<rparr> (rng_at s n) =
    Some (\<lparr>template_bytes = initial_packet sz (dcid_of ne s n), dcid_offset = 6\<rparr>, rng_at s (n + 3))"
proof -
  have "26 \<le> length (initial_packet sz d)"
    using assms by (simp add: initial_packet_def long_header_def)
  moreover have "take 6 (initial_packet sz d) @ dcid_of ne s n @ drop 26 (initial_packet sz d) =
      initial_packet sz (dcid_of ne s n)"
    using assms by (simp add: initial_packet_def long_header_def)
  ultimately show ?thesis by (simp add: randomize_dcid_general)
qed

lemma dcid_of_inject:
  assumes "dcid_of ne s (3 * m) = dcid_of ne s (3 * n)" and "m < 2 ^ 64" and "n < 2 ^ 64"
  shows "m = n"
proof -
  have "to_ne_bytes ne (nth_output s (3 * m + 1)) = to_ne_bytes ne (nth_output s (3 * n + 1))"
    using assms(1) by (simp add: dcid_of_def)
  then have "nth_output s (3 * m + 1) = nth_output s (3 * n + 1)" by (simp only: to_ne_bytes_inject)
  then show ?thesis
    using nth_output_inject [of s 3 m 1 n "0xaaaaaaaaaaaaaaab"] assms(2,3) by simp
qed

lemma varint_length:
  fixes w :: u16
  assumes "n < 0x4000" and "w = 0x4000 OR of_nat n"
  shows "drop_bit 14 w = 1" and "unat (take_bit 14 w) = n"
proof -
  have n: "take_bit 14 n = n" using assms(1) by (simp add: take_bit_nat_eq_self)
  then have t: "take_bit 14 (of_nat n :: u16) = of_nat n"
    by (metis of_nat_take_bit)
  then have d: "drop_bit 14 (of_nat n :: u16) = 0"
    by (metis drop_bit_take_bit diff_self_eq_0 take_bit_0)
  have "drop_bit 14 (0x4000 :: u16) = 1" "take_bit 14 (0x4000 :: u16) = 0" by code_simp+
  then show "drop_bit 14 w = 1" "unat (take_bit 14 w) = n"
    using t d n assms by (simp_all add: unat_of_nat take_bit_nat_eq_self)
qed

section \<open>Properties\<close>

text \<open>C23: For every size from 1200 to 16433 the blaster builds a datagram of exactly that size
  whose destination connection ID the packet filter finds, full length, where the template
  rewrites it, and whose two-byte length field states exactly the bytes that follow it.\<close>

theorem template_is_an_initial_of_the_size:
  assumes "1200 \<le> sz" and "sz \<le> 16433"
  shows "\<exists>t w. InitialTemplate_new sz = Some (Ok t) \<and> length (template_bytes t) = sz \<and>
    destination_cid (template_bytes t) =
      slice_get (template_bytes t) (dcid_offset t) (dcid_offset t + TOKEN_LEN) \<and>
    dcid_offset t + TOKEN_LEN \<le> sz \<and>
    slice_get (template_bytes t) 48 50 = Some (be_bytes 2 (w :: u16)) \<and>
    drop_bit 14 w = 1 \<and> unat (take_bit 14 w) = sz - 50"
proof -
  let ?d = "replicate 20 0 :: bytes"
  let ?w = "0x4000 OR of_nat (sz - 50) :: u16"
  have "InitialTemplate_new sz = Some (Ok \<lparr>template_bytes = initial_packet sz ?d, dcid_offset = 6\<rparr>)"
    using assms by (simp add: InitialTemplate_new_eq)
  moreover have "slice_get (initial_packet sz ?d) 48 50 = Some (be_bytes 2 ?w)"
    by (simp add: initial_packet_def long_header_def slice_get_def del: of_nat_diff)
  moreover have "slice_get (initial_packet sz ?d) 6 26 = Some ?d"
    by (simp add: initial_packet_def long_header_def slice_get_def)
  moreover have "drop_bit 14 ?w = 1" "unat (take_bit 14 ?w) = sz - 50"
    by (rule varint_length [of "sz - 50"]; use assms in simp)+
  ultimately show ?thesis
    using assms length_initial_packet [of sz ?d] destination_cid_initial_packet [of ?d sz]
    by (intro exI [of _ "\<lparr>template_bytes = initial_packet sz ?d, dcid_offset = 6\<rparr>"] exI [of _ ?w])
      (simp add: TOKEN_LEN_def del: of_nat_diff)
qed

theorem template_is_an_initial_of_the_size_witness:
  "\<exists>t w. InitialTemplate_new 1200 = Some (Ok t) \<and> length (template_bytes t) = 1200 \<and>
    destination_cid (template_bytes t) =
      slice_get (template_bytes t) (dcid_offset t) (dcid_offset t + TOKEN_LEN) \<and>
    dcid_offset t + TOKEN_LEN \<le> 1200 \<and>
    slice_get (template_bytes t) 48 50 = Some (be_bytes 2 (w :: u16)) \<and>
    drop_bit 14 w = 1 \<and> unat (take_bit 14 w) = 1200 - 50"
  by (rule template_is_an_initial_of_the_size) simp_all

text \<open>C39: The sizes the template constructor refuses with an error are those below 1200 and
  above 65535; for the sizes in between that its two-byte length field cannot express, from
  16434 on, it panics on its assertion instead, and the error branches for a header that does
  not fit and for a longer length field are never taken.\<close>

theorem template_size_verdicts:
  "(InitialTemplate_new sz = None \<longleftrightarrow> 16434 \<le> sz \<and> sz \<le> 65535) \<and>
   (InitialTemplate_new sz = Some (Err e) \<longleftrightarrow>
      sz < 1200 \<and> e = SizeBelowMinimum sz \<or> 65535 < sz \<and> e = SizeAboveDatagram sz)"
  by (auto simp: InitialTemplate_new_eq)

text \<open>Randomising a template whose connection ID range lies inside it never panics, consumes
  exactly three generator outputs, puts their bytes into the 20 bytes of the connection ID
  and leaves every other byte, the length and the offset as they were.\<close>

lemma randomize_dcid_rewrites_only_the_cid:
  assumes "dcid_offset t + TOKEN_LEN \<le> length (template_bytes t)"
  shows "\<exists>t' rng'. randomize_dcid ne t (SplitMix64 s) = Some (t', rng') \<and>
    rng' = SplitMix64 (s + 3 * 0x9e3779b97f4a7c15) \<and>
    dcid_offset t' = dcid_offset t \<and> length (template_bytes t') = length (template_bytes t) \<and>
    slice_get (template_bytes t') (dcid_offset t) (dcid_offset t + TOKEN_LEN) = Some (dcid_of ne s 0) \<and>
    (\<forall>i < length (template_bytes t). i < dcid_offset t \<or> dcid_offset t + TOKEN_LEN \<le> i \<longrightarrow>
       template_bytes t' ! i = template_bytes t ! i)"
  using assms randomize_dcid_general [of t ne s 0]
  by (auto simp: consts_simps rng_at_0 slice_get_def nth_append) (simp add: rng_at_def)

end
