(* ===== verification/Blaster.thy ===== *)
theory Blaster
  imports Blaster_Packet Socket_Base
begin

text \<open>
  The flooding program of \<open>src/bin/blaster.rs\<close>: one sender thread (\<open>blast\<close>), the set-up and
  tear-down around the threads (\<open>main\<close>), and the throughput report. The operating system's
  socket, the shared stop flag, the clock and the thread spawner are parameters over an
  environment \<open>'e\<close>. Arithmetic on \<open>u64\<close> wraps, as in a release build.
\<close>

section \<open>One sender thread\<close>

definition BATCH :: nat where [consts_simps]: "BATCH = 64"

record Stats =
  stat_sent :: u64
  stat_bytes :: u64
  stat_errors :: u64

text \<open>
  \<open>op_schedule sent pps\<close> is \<open>Duration::from_secs_f64(sent as f64 / pps as f64)\<close> in
  nanoseconds, \<open>op_elapsed\<close> is \<open>start.elapsed()\<close>.
\<close>

record 'e flood_ops =
  op_bind :: "bool \<Rightarrow> 'e \<Rightarrow> (io_error + unit) \<times> 'e"
  op_connect :: "SocketAddr \<Rightarrow> 'e \<Rightarrow> (io_error + unit) \<times> 'e"
  op_running :: "'e \<Rightarrow> bool \<times> 'e"
  op_send :: "bytes \<Rightarrow> 'e \<Rightarrow> (io_error + nat) \<times> 'e"
  op_schedule :: "u64 \<Rightarrow> u64 \<Rightarrow> nat"
  op_elapsed :: "'e \<Rightarrow> nat \<times> 'e"
  op_sleep :: "nat \<Rightarrow> 'e \<Rightarrow> 'e"

datatype blast_error = BlastIo io_error | BlastTemplate template_error

datatype blast_out = BlastPanic | BlastReturn "blast_error + unit"

text \<open>The counters after one \<open>send\<close>.\<close>

definition count_send :: "Stats \<Rightarrow> (io_error + nat) \<Rightarrow> Stats" where
  "count_send stats result =
     (case result of
        Inr n \<Rightarrow> stats\<lparr>stat_sent := stat_sent stats + 1, stat_bytes := stat_bytes stats + of_nat n\<rparr>
      | Inl _ \<Rightarrow> stats\<lparr>stat_errors := stat_errors stats + 1\<rparr>)"

type_synonym 'e batch_state = "'e \<times> InitialTemplate \<times> SplitMix64 \<times> Stats"

text \<open>The \<open>for _ in 0..BATCH\<close> loop; \<open>None\<close> is a panic while randomising.\<close>

primrec send_batch :: "endianness \<Rightarrow> 'e flood_ops \<Rightarrow> nat \<Rightarrow> 'e batch_state \<Rightarrow> 'e batch_state option" where
  "send_batch ne ops 0 st = Some st"
| "send_batch ne ops (Suc n) st = do {
     let (e, template, rng, stats) = st;
     (template, rng) \<leftarrow> randomize_dcid ne template rng;
     let (result, e) = op_send ops (template_bytes template) e;
     send_batch ne ops n (e, template, rng, count_send stats result)
   }"

text \<open>Pacing against the absolute schedule.\<close>

definition pace :: "'e flood_ops \<Rightarrow> u64 \<Rightarrow> u64 \<Rightarrow> 'e \<Rightarrow> 'e" where
  "pace ops pps nsent e =
     (if 0 < pps then
        let target_elapsed = op_schedule ops nsent pps;
            (elapsed, e) = op_elapsed ops e
        in (case checked_sub target_elapsed elapsed of None \<Rightarrow> e | Some dur \<Rightarrow> op_sleep ops dur e)
      else e)"

definition blast_step ::
  "endianness \<Rightarrow> 'e flood_ops \<Rightarrow> u64 \<Rightarrow> 'e batch_state \<times> u64 \<Rightarrow>
     ((blast_out \<times> 'e \<times> Stats) + 'e batch_state \<times> u64) option" where
  "blast_step ne ops pps st =
     (case st of ((e, template, rng, stats), nsent) \<Rightarrow>
        let (running, e) = op_running ops e in
        if \<not> running then Some (Inl (BlastReturn (Ok ()), e, stats))
        else
          (case send_batch ne ops BATCH (e, template, rng, stats) of
             None \<Rightarrow> Some (Inl (BlastPanic, e, stats))
           | Some (e, template, rng, stats) \<Rightarrow>
               let nsent = nsent + of_nat BATCH in
               Some (Inr ((pace ops pps nsent e, template, rng, stats), nsent))))"

definition blast ::
  "endianness \<Rightarrow> 'e flood_ops \<Rightarrow> SocketAddr \<Rightarrow> nat \<Rightarrow> u64 \<Rightarrow> u64 \<Rightarrow> 'e \<Rightarrow> Stats \<Rightarrow>
     (blast_out \<times> 'e \<times> Stats) option" where
  "blast ne ops target sz pps seed e stats =
     (let (bound, e) = op_bind ops (is_ipv4 target) e in
      case bound of Inl x \<Rightarrow> Some (BlastReturn (Err (BlastIo x)), e, stats)
      | Inr _ \<Rightarrow>
        (let (connected, e) = op_connect ops target e in
         case connected of Inl x \<Rightarrow> Some (BlastReturn (Err (BlastIo x)), e, stats)
         | Inr _ \<Rightarrow>
           (case InitialTemplate_new sz of
              None \<Rightarrow> Some (BlastPanic, e, stats)
            | Some (Inl x) \<Rightarrow> Some (BlastReturn (Err (BlastTemplate x)), e, stats)
            | Some (Inr template) \<Rightarrow>
                iterate (blast_step ne ops pps) ((e, template, SplitMix64 seed, stats), 0))))"

section \<open>The main program\<close>

definition thread_count :: "nat option \<Rightarrow> (io_error + nat) \<Rightarrow> nat" where
  "thread_count threads available_parallelism =
     (case threads of
        Some (Suc n) \<Rightarrow> Suc n
      | _ \<Rightarrow> (case available_parallelism of Inl _ \<Rightarrow> 1 | Inr n \<Rightarrow> n))"

text \<open>\<open>threads as u64\<close> is exact on a 64-bit machine.\<close>

definition per_thread_pps :: "u64 \<Rightarrow> nat \<Rightarrow> u64" where
  "per_thread_pps pps threads = (if pps = 0 then 0 else max (pps div of_nat threads) 1)"

text \<open>
  Spawning the workers: thread \<open>i\<close> gets the next output of the seed generator. \<open>collect\<close>
  stops at the first thread that cannot be spawned.
\<close>

fun spawn_workers ::
  "(nat \<Rightarrow> u64 \<Rightarrow> 'e \<Rightarrow> (io_error + 'h) \<times> 'e) \<Rightarrow> nat list \<Rightarrow> SplitMix64 \<Rightarrow> 'e \<Rightarrow> (io_error + 'h list) \<times> 'e" where
  "spawn_workers spawn [] seed e = (Ok [], e)"
| "spawn_workers spawn (i # is) seed e =
     (let (s, seed) = SplitMix64_next seed;
          (r, e) = spawn i s e
      in case r of
           Inl x \<Rightarrow> (Err x, e)
         | Inr h \<Rightarrow>
             (case spawn_workers spawn is seed e of
                (Inl x, e) \<Rightarrow> (Err x, e)
              | (Inr hs, e) \<Rightarrow> (Ok (h # hs), e)))"

text \<open>What \<open>main\<close> prints about each joined worker, and the run's totals.\<close>

datatype join_line = SenderFailed blast_error | SenderPanicked

fun join_workers :: "('h \<Rightarrow> 'e \<Rightarrow> blast_out \<times> 'e) \<Rightarrow> 'h list \<Rightarrow> 'e \<Rightarrow> join_line list \<times> 'e" where
  "join_workers join [] e = ([], e)"
| "join_workers join (h # hs) e =
     (let (r, e) = join h e;
          line = (case r of BlastReturn (Inr _) \<Rightarrow> [] | BlastReturn (Inl x) \<Rightarrow> [SenderFailed x]
                  | BlastPanic \<Rightarrow> [SenderPanicked]);
          (lines, e) = join_workers join hs e
      in (line @ lines, e))"

record blaster_args =
  arg_target :: SocketAddr
  arg_threads :: "nat option"
  arg_duration :: u64
  arg_size :: nat
  arg_pps :: u64

text \<open>
  The threads as \<open>main\<close> sees them: \<open>op_spawn target sz pps i seed\<close>, the wait for the
  deadline or the interrupt (\<open>op_await\<close>; a duration of 0 waits for the interrupt alone),
  clearing the flag, joining and the final loads of the shared counters.
\<close>

record ('e, 'h) main_ops =
  op_parallelism :: "io_error + nat"
  op_spawn :: "SocketAddr \<Rightarrow> nat \<Rightarrow> u64 \<Rightarrow> nat \<Rightarrow> u64 \<Rightarrow> 'e \<Rightarrow> (io_error + 'h) \<times> 'e"
  op_await :: "u64 option \<Rightarrow> 'e \<Rightarrow> (io_error + unit) \<times> 'e"
  op_stop :: "'e \<Rightarrow> 'e"
  op_join :: "'h \<Rightarrow> 'e \<Rightarrow> blast_out \<times> 'e"
  op_stats :: "'e \<Rightarrow> Stats"

datatype blaster_main_out =
    MainPanic
  | MainErr blast_error
  | MainOk "join_line list" Stats

definition blaster_main :: "('e, 'h) main_ops \<Rightarrow> blaster_args \<Rightarrow> 'e \<Rightarrow> blaster_main_out \<times> 'e" where
  "blaster_main ops args e =
     (case InitialTemplate_new (arg_size args) of
        None \<Rightarrow> (MainPanic, e)
      | Some (Inl x) \<Rightarrow> (MainErr (BlastTemplate x), e)
      | Some (Inr _) \<Rightarrow>
          let threads = thread_count (arg_threads args) (op_parallelism ops);
              pps = per_thread_pps (arg_pps args) threads;
              (spawned, e) = spawn_workers (op_spawn ops (arg_target args) (arg_size args) pps)
                [0..<threads] (SplitMix64 0x243f6a8885a308d3) e
          in (case spawned of
                Inl x \<Rightarrow> (MainErr (BlastIo x), e)
              | Inr workers \<Rightarrow>
                  let (waited, e) = op_await ops
                        (if arg_duration args = 0 then None else Some (arg_duration args)) e
                  in (case waited of
                        Inl x \<Rightarrow> (MainErr (BlastIo x), e)
                      | Inr _ \<Rightarrow>
                          let (lines, e) = join_workers (op_join ops) workers (op_stop ops e)
                          in (MainOk lines (op_stats ops e), e))))"

text \<open>
  \<open>report\<close>: at each tick the packets and bytes since the last one and the total. The run
  aborts the task; the list holds the loads of the counters at the ticks until then.
\<close>

fun report :: "u64 \<Rightarrow> u64 \<Rightarrow> Stats list \<Rightarrow> (u64 \<times> u64 \<times> u64) list" where
  "report last_sent last_bytes [] = []"
| "report last_sent last_bytes (stats # ticks) =
     (stat_sent stats - last_sent, stat_bytes stats - last_bytes, stat_sent stats) #
     report (stat_sent stats) (stat_bytes stats) ticks"

section \<open>What a thread sends\<close>

text \<open>
  The sends of a run in order, with their results: every operation of the environment that
  \<open>blast\<close> calls in its loop, of which only the sends are recorded.
\<close>

inductive flood_log :: "'e flood_ops \<Rightarrow> 'e \<Rightarrow> (bytes \<times> (io_error + nat)) list \<Rightarrow> 'e \<Rightarrow> bool"
  for ops where
  start: "flood_log ops e [] e"
| running: "flood_log ops e log e1 \<Longrightarrow> op_running ops e1 = (b, e2) \<Longrightarrow> flood_log ops e log e2"
| elapsed: "flood_log ops e log e1 \<Longrightarrow> op_elapsed ops e1 = (d, e2) \<Longrightarrow> flood_log ops e log e2"
| sleep: "flood_log ops e log e1 \<Longrightarrow> flood_log ops e log (op_sleep ops d e1)"
| send: "flood_log ops e log e1 \<Longrightarrow> op_send ops p e1 = (r, e2) \<Longrightarrow> flood_log ops e (log @ [(p, r)]) e2"

text \<open>The stop flag is cleared after the thread has read it as set \<open>remaining e\<close> times.\<close>

definition flag_clears :: "'e flood_ops \<Rightarrow> ('e \<Rightarrow> nat) \<Rightarrow> bool" where
  "flag_clears ops remaining \<longleftrightarrow>
     (\<forall>e. fst (op_running ops e) = (0 < remaining e) \<and>
          remaining (snd (op_running ops e)) = remaining e - 1) \<and>
     (\<forall>p e. remaining (snd (op_send ops p e)) = remaining e) \<and>
     (\<forall>e. remaining (snd (op_elapsed ops e)) = remaining e) \<and>
     (\<forall>d e. remaining (op_sleep ops d e) = remaining e)"

text \<open>The packets of a thread, in order.\<close>

definition flood_packets :: "endianness \<Rightarrow> nat \<Rightarrow> u64 \<Rightarrow> nat \<Rightarrow> bytes list" where
  "flood_packets ne sz seed n = map (\<lambda>i. initial_packet sz (dcid_of ne seed (3 * i))) [0..<n]"

text \<open>
  The loop's invariant: after the sends in \<open>log\<close> the template holds an Initial of the size,
  the generator has made three outputs per send, and the counters are those of the results.
\<close>

definition flood_inv ::
  "endianness \<Rightarrow> 'e flood_ops \<Rightarrow> nat \<Rightarrow> u64 \<Rightarrow> 'e \<Rightarrow> Stats \<Rightarrow> (bytes \<times> (io_error + nat)) list \<Rightarrow>
     'e batch_state \<Rightarrow> bool" where
  "flood_inv ne ops sz seed e0 stats0 log st \<longleftrightarrow>
     (case st of (e, t, rng, stats) \<Rightarrow>
        flood_log ops e0 log e \<and> map fst log = flood_packets ne sz seed (length log) \<and>
        (\<exists>d. length d = 20 \<and> t = \<lparr>template_bytes = initial_packet sz d, dcid_offset = 6\<rparr>) \<and>
        rng = rng_at seed (3 * length log) \<and> stats = foldl count_send stats0 (map snd log))"

lemma flag_clears_pace: "flag_clears ops remaining \<Longrightarrow> remaining (pace ops pps nsent e) = remaining e"
  by (auto simp: pace_def flag_clears_def Let_def split: option.splits prod.splits)
    (metis snd_conv)+

lemma flood_log_pace: "flood_log ops e0 log e \<Longrightarrow> flood_log ops e0 log (pace ops pps nsent e)"
  by (auto simp: pace_def Let_def split: option.splits prod.splits intro: flood_log.intros)

lemma flood_packets_Suc:
  "flood_packets ne sz seed (Suc n) = flood_packets ne sz seed n @ [initial_packet sz (dcid_of ne seed (3 * n))]"
  by (simp add: flood_packets_def)

lemma send_batch_post:
  assumes "flood_inv ne ops sz seed e0 stats0 log (e, t, rng, stats)" and "flag_clears ops remaining"
  shows "\<exists>log' e' t' rng' stats'. send_batch ne ops n (e, t, rng, stats) = Some (e', t', rng', stats') \<and>
    flood_inv ne ops sz seed e0 stats0 log' (e', t', rng', stats') \<and> length log' = length log + n \<and>
    remaining e' = remaining e"
  using assms(1)
proof (induction n arbitrary: e t rng stats log)
  case 0
  then show ?case by auto
next
  case (Suc n)
  let ?p = "initial_packet sz (dcid_of ne seed (3 * length log))"
  obtain r e1 where s: "op_send ops ?p e = (r, e1)" by (cases "op_send ops ?p e")
  have step: "randomize_dcid ne t rng = Some (\<lparr>template_bytes = ?p, dcid_offset = 6\<rparr>, rng_at seed (3 * length log + 3))"
    using Suc.prems randomize_dcid_nth by (auto simp: flood_inv_def)
  have inv: "flood_inv ne ops sz seed e0 stats0 (log @ [(?p, r)])
      (e1, \<lparr>template_bytes = ?p, dcid_offset = 6\<rparr>, rng_at seed (3 * length log + 3), count_send stats r)"
    using Suc.prems s
    by (auto simp: flood_inv_def flood_packets_Suc add.commute intro: flood_log.intros exI [of _ "dcid_of ne seed (3 * length log)"])
  have "remaining e1 = remaining e" using assms(2) s by (metis flag_clears_def snd_conv)
  then show ?case using Suc.IH [OF inv] by (simp add: step s)
qed

lemma blast_step_post:
  assumes inv: "flood_inv ne ops sz seed e0 stats0 log st" and clears: "flag_clears ops remaining"
  shows "(remaining (fst st) = 0 \<and> (\<exists>e'. blast_step ne ops pps (st, nsent) =
      Some (Inl (BlastReturn (Ok ()), e', foldl count_send stats0 (map snd log))) \<and> flood_log ops e0 log e')) \<or>
    (\<exists>st' log' nsent'. blast_step ne ops pps (st, nsent) = Some (Inr (st', nsent')) \<and>
      flood_inv ne ops sz seed e0 stats0 log' st' \<and> length log' = length log + 64 \<and>
      remaining (fst st) = Suc (remaining (fst st')))"
proof -
  obtain e t rng stats where st: "st = (e, t, rng, stats)" by (cases st)
  obtain b e1 where r: "op_running ops e = (b, e1)" by (cases "op_running ops e")
  have b: "b = (0 < remaining e)" and rem: "remaining e1 = remaining e - 1"
    using clears r by (metis flag_clears_def fst_conv, metis flag_clears_def snd_conv)
  have inv1: "flood_inv ne ops sz seed e0 stats0 log (e1, t, rng, stats)"
    using inv r by (auto simp: st flood_inv_def intro: flood_log.running)
  show ?thesis
  proof (cases b)
    case False
    then show ?thesis using inv1 b r by (auto simp: st blast_step_def flood_inv_def)
  next
    case True
    obtain log' e2 t' rng' stats' where
      "send_batch ne ops BATCH (e1, t, rng, stats) = Some (e2, t', rng', stats')"
      "flood_inv ne ops sz seed e0 stats0 log' (e2, t', rng', stats')" "length log' = length log + 64"
      "remaining e2 = remaining e1"
      using send_batch_post [OF inv1 clears, of BATCH] by (auto simp: consts_simps)
    moreover have "flood_inv ne ops sz seed e0 stats0 log' (pace ops pps (nsent + of_nat BATCH) e2, t', rng', stats')"
      using calculation(2) by (auto simp: flood_inv_def intro: flood_log_pace)
    ultimately show ?thesis
      using True b rem r
      by (intro disjI2 exI [of _ "(pace ops pps (nsent + of_nat BATCH) e2, t', rng', stats')"]
          exI [of _ log'] exI [of _ "nsent + of_nat BATCH"])
        (simp add: st blast_step_def flag_clears_pace [OF clears] Let_def)
  qed
qed

lemma blast_loop:
  assumes "flood_inv ne ops sz seed e0 stats0 log st" and "flag_clears ops remaining"
  shows "\<exists>e' log'. iterate (blast_step ne ops pps) (st, nsent) =
      Some (BlastReturn (Ok ()), e', foldl count_send stats0 (map snd log')) \<and>
    flood_log ops e0 log' e' \<and> map fst log' = flood_packets ne sz seed (length log') \<and>
    length log' = length log + 64 * remaining (fst st)"
  using assms(1)
proof (induction "remaining (fst st)" arbitrary: st log nsent)
  case 0
  then show ?case
    using blast_step_post [OF 0(2) assms(2), of pps nsent]
    by (auto simp: iterate.simps flood_inv_def split: prod.splits)
next
  case (Suc k)
  obtain st' log1 nsent' where step: "blast_step ne ops pps (st, nsent) = Some (Inr (st', nsent'))"
    and inv: "flood_inv ne ops sz seed e0 stats0 log1 st'" and len: "length log1 = length log + 64"
    and rem: "remaining (fst st) = Suc (remaining (fst st'))"
    using blast_step_post [OF Suc(3) assms(2), of pps nsent] Suc(2) by auto
  have "iterate (blast_step ne ops pps) (st, nsent) = iterate (blast_step ne ops pps) (st', nsent')"
    by (subst iterate.simps) (simp add: step)
  moreover have "length log1 + 64 * remaining (fst st') = length log + 64 * remaining (fst st)"
    using len rem by simp
  ultimately show ?case
    using Suc(1) [OF _ inv, of nsent'] Suc(2) rem by (metis Suc_inject)
qed

lemma count_send_total:
  "stat_sent (foldl count_send s rs) + stat_errors (foldl count_send s rs) =
     stat_sent s + stat_errors s + of_nat (length rs)"
  by (induction rs arbitrary: s) (auto simp: count_send_def split: sum.splits)

lemma flood_packets_distinct:
  assumes "n \<le> 2 ^ 64"
  shows "distinct (map destination_cid (flood_packets ne sz seed n))"
proof -
  have "map destination_cid (flood_packets ne sz seed n) = map (\<lambda>i. Some (dcid_of ne seed (3 * i))) [0..<n]"
    by (simp add: flood_packets_def destination_cid_initial_packet)
  moreover have "inj_on (\<lambda>i. Some (dcid_of ne seed (3 * i))) (set [0..<n])"
  proof (rule inj_onI)
    fix i j
    assume "i \<in> set [0..<n]" "j \<in> set [0..<n]" "Some (dcid_of ne seed (3 * i)) = Some (dcid_of ne seed (3 * j))"
    then show "i = j" using assms dcid_of_inject [of ne seed i j] by simp
  qed
  ultimately show ?thesis by (simp add: distinct_map)
qed

section \<open>Pacing\<close>

lemma unat_u64: "m < 2 ^ 64 \<Longrightarrow> unat (of_nat m :: u64) = m"
  by (simp add: unat_of_nat take_bit_nat_eq_self)

text \<open>
  The clock a thread is paced by, since its \<open>start\<close>: \<open>start.elapsed()\<close> does not read ahead of it, and
  \<open>thread::sleep\<close> sleeps for at least the duration it is given.
\<close>

definition keeps_time :: "'e flood_ops \<Rightarrow> ('e \<Rightarrow> nat) \<Rightarrow> bool" where
  "keeps_time ops clock \<longleftrightarrow>
     (\<forall>e d e'. op_elapsed ops e = (d, e') \<longrightarrow> d \<le> clock e') \<and>
     (\<forall>d e. clock e + d \<le> clock (op_sleep ops d e))"

text \<open>
  The schedule is the quotient of the packets sent and the rate up to a rounding error of \<open>slack\<close>
  nanoseconds, that of the division of floating-point numbers and of their conversion.
\<close>

definition schedule_within :: "'e flood_ops \<Rightarrow> nat \<Rightarrow> bool" where
  "schedule_within ops slack \<longleftrightarrow>
     (\<forall>nsent pps. 0 < pps \<longrightarrow> unat nsent * 10 ^ 9 \<le> (op_schedule ops nsent pps + slack) * unat pps)"

lemma pace_waits:
  assumes "keeps_time ops clock" and "0 < pps"
  shows "op_schedule ops nsent pps \<le> clock (pace ops pps nsent e)"
proof -
  obtain d e1 where d: "op_elapsed ops e = (d, e1)" by fastforce
  have "d \<le> clock e1" "clock e1 + k \<le> clock (op_sleep ops k e1)" for k
    using assms(1) d by (auto simp: keeps_time_def)
  from this(1) this(2) [of "op_schedule ops nsent pps - d"] show ?thesis
    using assms(2) d by (simp add: pace_def checked_sub_def Let_def) linarith
qed

text \<open>The state of a thread after \<open>n\<close> turns of its loop, if it makes that many.\<close>

primrec blast_turns ::
  "endianness \<Rightarrow> 'e flood_ops \<Rightarrow> u64 \<Rightarrow> nat \<Rightarrow> 'e batch_state \<times> u64 \<Rightarrow> ('e batch_state \<times> u64) option" where
  "blast_turns ne ops pps 0 st = Some st"
| "blast_turns ne ops pps (Suc n) st = do {
     st1 \<leftarrow> blast_turns ne ops pps n st;
     (case blast_step ne ops pps st1 of Some (Inr st2) \<Rightarrow> Some st2 | _ \<Rightarrow> None)
   }"

lemma blast_turns_SucE:
  assumes "blast_turns ne ops pps (Suc n) st = Some st2"
  obtains st1 where "blast_turns ne ops pps n st = Some st1" "blast_step ne ops pps st1 = Some (Inr st2)"
proof (cases "blast_turns ne ops pps n st")
  case (Some st1)
  then show thesis
    using assms that by (cases "blast_step ne ops pps st1") (auto split: sum.splits)
qed (use assms in simp)

lemma blast_turns_iterate:
  "blast_turns ne ops pps n st = Some st' \<Longrightarrow> iterate (blast_step ne ops pps) st = iterate (blast_step ne ops pps) st'"
proof (induction n arbitrary: st')
  case (Suc n)
  from Suc.prems obtain st1 where "blast_turns ne ops pps n st = Some st1" "blast_step ne ops pps st1 = Some (Inr st')"
    by (rule blast_turns_SucE)
  then show ?case using Suc.IH [of st1] by (simp add: iterate.simps [of _ st1])
qed simp

lemma send_batch_count:
  "send_batch ne ops n (e, t, rng, stats) = Some (e', t', rng', stats') \<Longrightarrow>
     stat_sent stats' + stat_errors stats' = stat_sent stats + stat_errors stats + of_nat n"
proof (induction n arbitrary: e t rng stats)
  case (Suc n)
  obtain t1 rng1 where r: "randomize_dcid ne t rng = Some (t1, rng1)"
    using Suc.prems by (auto simp: bind_eq_Some_conv)
  obtain x e1 where x: "op_send ops (template_bytes t1) e = (x, e1)" by fastforce
  have "stat_sent (count_send stats x) + stat_errors (count_send stats x) = stat_sent stats + stat_errors stats + 1"
    by (auto simp: count_send_def split: sum.split)
  with Suc.IH [of e1 t1 rng1 "count_send stats x"] Suc.prems r x show ?case by (simp add: add.assoc)
qed simp

lemma blast_step_turn:
  assumes "blast_step ne ops pps ((e, t, rng, stats), nsent) = Some (Inr ((e', t', rng', stats'), nsent'))"
  shows "nsent' = nsent + 64 \<and>
    stat_sent stats' + stat_errors stats' = stat_sent stats + stat_errors stats + 64 \<and>
    (\<exists>e1. e' = pace ops pps nsent' e1)"
proof -
  obtain b e1 where r: "op_running ops e = (b, e1)" by fastforce
  note step = assms [unfolded blast_step_def prod.case r Let_def]
  have b: "b" using step by (cases b) simp_all
  show ?thesis
  proof (cases "send_batch ne ops BATCH (e1, t, rng, stats)")
    case None
    then show ?thesis using step b by simp
  next
    case (Some st2)
    obtain e2 t2 rng2 stats2 where st2: "st2 = (e2, t2, rng2, stats2)" by (cases st2)
    have "e' = pace ops pps nsent' e2" "stats' = stats2" "nsent' = nsent + of_nat BATCH"
      using step b Some st2 by auto
    with send_batch_count [OF Some [unfolded st2]] show ?thesis by (auto simp: BATCH_def)
  qed
qed

lemma blast_turns_post:
  assumes "blast_turns ne ops pps n ((e, t, rng, stats), 0) = Some ((e', t', rng', stats'), nsent)"
  shows "nsent = of_nat (64 * n) \<and>
    stat_sent stats' + stat_errors stats' = stat_sent stats + stat_errors stats + of_nat (64 * n) \<and>
    (0 < n \<longrightarrow> (\<exists>e1. e' = pace ops pps nsent e1))"
  using assms
proof (induction n arbitrary: e' t' rng' stats' nsent)
  case (Suc n)
  from Suc.prems obtain st1 where first: "blast_turns ne ops pps n ((e, t, rng, stats), 0) = Some st1"
    and step: "blast_step ne ops pps st1 = Some (Inr ((e', t', rng', stats'), nsent))"
    by (rule blast_turns_SucE)
  obtain e1 t1 rng1 stats1 nsent1 where st1: "st1 = ((e1, t1, rng1, stats1), nsent1)" by (metis prod.exhaust)
  note turn = blast_step_turn [OF step [unfolded st1]] and before = Suc.IH [OF first [unfolded st1]]
  have "of_nat (64 * n) + 64 = (of_nat (64 * Suc n) :: u64)" by (simp add: add.commute)
  with turn before show ?case by (metis add.assoc)
qed simp

text \<open>While the flag stays set a thread makes its turns.\<close>

lemma blast_turns_made:
  assumes "flood_inv ne ops sz seed e0 stats0 log st" and "flag_clears ops remaining" and "n \<le> remaining (fst st)"
  shows "\<exists>st' nsent log'. blast_turns ne ops pps n (st, 0) = Some (st', nsent) \<and>
    flood_inv ne ops sz seed e0 stats0 log' st' \<and> remaining (fst st') = remaining (fst st) - n"
  using assms(3)
proof (induction n)
  case 0
  then show ?case using assms(1) by auto
next
  case (Suc n)
  then obtain st1 nsent log1 where turns: "blast_turns ne ops pps n (st, 0) = Some (st1, nsent)"
    and inv: "flood_inv ne ops sz seed e0 stats0 log1 st1" and rem: "remaining (fst st1) = remaining (fst st) - n"
    by auto
  from blast_step_post [OF inv assms(2), of pps nsent] rem Suc.prems
  obtain st2 log2 nsent2 where "blast_step ne ops pps (st1, nsent) = Some (Inr (st2, nsent2))"
    "flood_inv ne ops sz seed e0 stats0 log2 st2" "remaining (fst st1) = Suc (remaining (fst st2))"
    by auto
  with turns rem show ?case by auto
qed

text \<open>
  The rates of the threads together: within the requested rate, losing less than one packet a
  second each, when the rate is at least the number of threads, and the number of threads when it
  is lower.
\<close>

lemma per_thread_pps_total:
  assumes "0 < threads" and "threads < 2 ^ 64"
  shows "(per_thread_pps pps threads = 0 \<longleftrightarrow> pps = 0) \<and>
    (threads \<le> unat pps \<longrightarrow>
       threads * unat (per_thread_pps pps threads) \<le> unat pps \<and>
       unat pps < threads * unat (per_thread_pps pps threads) + threads) \<and>
    (0 < pps \<and> unat pps < threads \<longrightarrow> threads * unat (per_thread_pps pps threads) = threads)"
proof -
  have t: "unat (of_nat threads :: u64) = threads" using assms(2) by (rule unat_u64)
  have d: "unat (pps div of_nat threads) = unat pps div threads"
    by (simp add: unat_div t)
  have m: "unat (per_thread_pps pps threads) = (if pps = 0 then 0 else max (unat pps div threads) 1)"
    by (simp add: per_thread_pps_def max_def word_le_nat_alt d)
  have zero: "pps = 0 \<longleftrightarrow> unat pps = 0" by (simp add: unat_eq_0)
  have "threads * (unat pps div threads) \<le> unat pps"
    "unat pps < threads * (unat pps div threads) + threads"
    using assms(1) dividend_less_times_div [of threads "unat pps"] by (simp_all add: add.commute)
  moreover have "1 \<le> unat pps div threads" if "threads \<le> unat pps"
    using that assms(1) by (simp add: div_greater_zero_iff Suc_le_eq)
  moreover have "per_thread_pps pps threads = 0 \<longleftrightarrow> unat (per_thread_pps pps threads) = 0"
    by (simp add: unat_eq_0)
  ultimately show ?thesis
    using assms(1) by (auto simp: m zero word_less_nat_alt max_def dest!: sym [of "Suc 0"])
qed

text \<open>What one thread has sent at the head of its loop is within its rate.\<close>

lemma thread_rate:
  assumes "keeps_time ops clock" and "schedule_within ops slack" and "0 < pps"
    and "blast_turns ne ops pps n ((e, t, rng, stats), 0) = Some ((e', t', rng', stats'), nsent) \<and>
      64 * n < 2 ^ 64 \<and> clock e' \<le> T"
  shows "64 * n * 10 ^ 9 \<le> unat pps * (T + slack)"
proof (cases "n = 0")
  case False
  then have "op_schedule ops nsent pps \<le> T" and nsent: "nsent = of_nat (64 * n)"
    using blast_turns_post [of ne ops pps n e t rng stats e' t' rng' stats' nsent] pace_waits [OF assms(1,3)] assms(4)
    by (auto intro: order_trans)
  have "64 * n = unat nsent"
    using assms(4) unfolding nsent by (simp only: unat_u64)
  then have "64 * n * 10 ^ 9 \<le> (op_schedule ops nsent pps + slack) * unat pps"
    using assms(2,3) by (simp only: schedule_within_def)
  also have "\<dots> \<le> (T + slack) * unat pps" using \<open>op_schedule ops nsent pps \<le> T\<close> by (simp only: mult_le_mono1 add_le_mono1)
  finally show ?thesis by (simp only: mult.commute)
qed simp

section \<open>Seeds of the threads\<close>

text \<open>A spawner that records the seed each thread is given and fails where \<open>ok\<close> says so.\<close>

definition spawn_log :: "(nat \<Rightarrow> bool) \<Rightarrow> nat \<Rightarrow> u64 \<Rightarrow> u64 list \<Rightarrow> (io_error + nat) \<times> u64 list" where
  "spawn_log ok i s log = (if ok i then Ok i else Err \<lparr>kind = WouldBlock\<rparr>, log @ [s])"

lemma spawn_workers_seeds:
  "\<exists>m \<le> n. snd (spawn_workers (spawn_log ok) [k..<k + n] (rng_at s k) log) =
      log @ map (\<lambda>i. nth_output s (Suc i)) [k..<k + m] \<and>
    ((\<forall>i \<in> {k..<k + n}. ok i) \<longrightarrow> m = n \<and>
       fst (spawn_workers (spawn_log ok) [k..<k + n] (rng_at s k) log) = Ok [k..<k + n])"
proof (induction n arbitrary: k log)
  case 0
  then show ?case by simp
next
  case (Suc n)
  let ?w = "spawn_workers (spawn_log ok) [Suc k..<Suc k + n] (rng_at s (Suc k)) (log @ [nth_output s (Suc k)])"
  obtain m where m: "m \<le> n" "snd ?w = (log @ [nth_output s (Suc k)]) @ map (\<lambda>i. nth_output s (Suc i)) [Suc k..<Suc k + m]"
    and all: "(\<forall>i \<in> {Suc k..<Suc k + n}. ok i) \<Longrightarrow> m = n \<and> fst ?w = Ok [Suc k..<Suc k + n]"
    using Suc.IH [of "Suc k" "log @ [nth_output s (Suc k)]"] by blast
  have cons: "[k..<k + Suc j] = k # [Suc k..<Suc k + j]" for j by (simp add: upt_rec)
  show ?case
  proof (cases "ok k")
    case False
    then show ?thesis
      unfolding cons
      by (intro exI [of _ 1])
        (auto simp: SplitMix64_next_nth spawn_log_def upt_rec intro!: bexI [of _ k])
  next
    case True
    have "snd (spawn_workers (spawn_log ok) [k..<k + Suc n] (rng_at s k) log) = snd ?w"
      and "\<And>hs. fst ?w = Ok hs \<Longrightarrow>
        fst (spawn_workers (spawn_log ok) [k..<k + Suc n] (rng_at s k) log) = Ok (k # hs)"
      unfolding cons
      using True by (auto simp: SplitMix64_next_nth spawn_log_def simp del: upt_Suc split: prod.split sum.split)
    then show ?thesis
      using m all cons [of m] cons [of n]
      by (intro exI [of _ "Suc m"]) (simp add: cons del: upt_Suc spawn_workers.simps)
  qed
qed

section \<open>The main program\<close>

lemma thread_count_pos:
  "(\<forall>n. available = Ok n \<longrightarrow> 0 < n) \<Longrightarrow> 0 < thread_count threads available"
  by (auto simp: thread_count_def split: option.split nat.split sum.split)

text \<open>A size the template refuses ends the program before any thread is spawned.\<close>

lemma blaster_main_bad_size:
  "arg_size args < 1200 \<Longrightarrow> blaster_main ops args e = (MainErr (BlastTemplate (SizeBelowMinimum (arg_size args))), e)"
  "65535 < arg_size args \<Longrightarrow> blaster_main ops args e = (MainErr (BlastTemplate (SizeAboveDatagram (arg_size args))), e)"
  "16434 \<le> arg_size args \<Longrightarrow> arg_size args \<le> 65535 \<Longrightarrow> blaster_main ops args e = (MainPanic, e)"
  by (simp_all add: blaster_main_def InitialTemplate_new_eq)

text \<open>Joining reports one line per thread that failed or panicked, and none for the others.\<close>

lemma join_workers_lines:
  "\<exists>outs. length outs = length hs \<and>
     fst (join_workers join hs e) = concat (map (\<lambda>r. case r of BlastReturn (Inr _) \<Rightarrow> []
       | BlastReturn (Inl x) \<Rightarrow> [SenderFailed x] | BlastPanic \<Rightarrow> [SenderPanicked]) outs)"
proof (induction hs arbitrary: e)
  case Nil
  then show ?case by simp
next
  case (Cons h hs)
  obtain r e1 where j: "join h e = (r, e1)" by fastforce
  obtain outs where o: "length outs = length hs"
    "fst (join_workers join hs e1) = concat (map (\<lambda>r. case r of BlastReturn (Inr _) \<Rightarrow> []
       | BlastReturn (Inl x) \<Rightarrow> [SenderFailed x] | BlastPanic \<Rightarrow> [SenderPanicked]) outs)"
    using Cons.IH by blast
  then show ?case
    by (intro exI [of _ "r # outs"]) (simp add: j case_prod_beta)
qed

text \<open>The lines of the report add up to the last total.\<close>

lemma report_adds_up:
  "sum_list (map fst (report s b ticks)) = stat_sent (last (\<lparr>stat_sent = s, stat_bytes = b, stat_errors = 0\<rparr> # ticks)) - s"
  by (induction ticks arbitrary: s b) auto

section \<open>An example environment\<close>

text \<open>The environment is the number of times the flag still reads as set; every send succeeds.\<close>

definition countdown_ops :: "nat flood_ops" where
  "countdown_ops =
     \<lparr>op_bind = \<lambda>v4 e. (Ok (), e), op_connect = \<lambda>a e. (Ok (), e), op_running = \<lambda>e. (0 < e, e - 1),
      op_send = \<lambda>p e. (Ok (length p), e), op_schedule = \<lambda>nsent pps. 1, op_elapsed = \<lambda>e. (0, e),
      op_sleep = \<lambda>d e. e\<rparr>"

lemma countdown_clears: "flag_clears countdown_ops id"
  by (simp add: flag_clears_def countdown_ops_def)

text \<open>
  The environment is the number of times the flag still reads as set and the time; sends take no
  time, every sleep is exact, and the schedule is rounded down to a nanosecond.
\<close>

definition punctual_ops :: "(nat \<times> nat) flood_ops" where
  "punctual_ops =
     \<lparr>op_bind = \<lambda>v4 e. (Ok (), e), op_connect = \<lambda>a e. (Ok (), e), op_running = \<lambda>(k, now). (0 < k, (k - 1, now)),
      op_send = \<lambda>p e. (Ok (length p), e), op_schedule = \<lambda>nsent pps. unat nsent * 10 ^ 9 div unat pps,
      op_elapsed = \<lambda>(k, now). (now, (k, now)), op_sleep = \<lambda>d (k, now). (k, now + d)\<rparr>"

lemma punctual_clears: "flag_clears punctual_ops fst"
  by (simp add: flag_clears_def punctual_ops_def split: prod.split)

lemma punctual_keeps_time: "keeps_time punctual_ops snd"
  by (auto simp: keeps_time_def punctual_ops_def)

lemma punctual_schedule: "schedule_within punctual_ops 1"
proof -
  have "unat nsent * 10 ^ 9 \<le> (unat nsent * 10 ^ 9 div unat pps + 1) * unat pps" if "0 < pps" for nsent pps :: u64
  proof -
    have "0 < unat pps" using that by (simp add: unat_gt_0)
    then show ?thesis
      using dividend_less_times_div [of "unat pps" "unat nsent * 10 ^ 9"] by (simp add: algebra_simps)
  qed
  then show ?thesis by (simp add: schedule_within_def punctual_ops_def)
qed

definition ex_stats :: Stats where
  "ex_stats = \<lparr>stat_sent = 0, stat_bytes = 0, stat_errors = 0\<rparr>"

definition ex_thread :: "nat \<Rightarrow> u64 \<Rightarrow> (nat \<times> nat) batch_state" where
  "ex_thread k seed =
     ((k, 0), \<lparr>template_bytes = initial_packet 1200 (replicate 20 0), dcid_offset = 6\<rparr>, SplitMix64 seed, ex_stats)"

lemma ex_thread_inv: "flood_inv ne ops 1200 seed (k, 0) ex_stats [] (ex_thread k seed)"
  by (auto simp: flood_inv_def ex_thread_def flood_packets_def rng_at_0 intro: flood_log.start exI [of _ "replicate 20 0"])

lemma ex_thread_turns: "\<exists>st' nsent. blast_turns ne punctual_ops pps n (ex_thread n seed, 0) = Some (st', nsent)"
  using blast_turns_made [OF ex_thread_inv punctual_clears, of n n seed] by (force simp: ex_thread_def)

text \<open>
  A requested rate below the number of threads is exceeded: where sends take no time and sleeps are
  exact, each thread sends one packet a second, so together they send as many as there are threads.
\<close>

lemma punctual_send_batch:
  "send_batch ne punctual_ops n (e, t, rng, stats) = Some (e', t', rng', stats') \<Longrightarrow> e' = e"
  by (induction n arbitrary: t rng stats) (auto simp: punctual_ops_def bind_eq_Some_conv)

lemma punctual_step:
  assumes "blast_step ne punctual_ops pps (((k, now), t, rng, stats), nsent) =
      Some (Inr (((k', now'), t', rng', stats'), nsent'))" and "0 < pps"
  shows "now' = max now (unat nsent' * 10 ^ 9 div unat pps)"
proof -
  note step = assms(1) [unfolded blast_step_def prod.case Let_def]
  have "op_running punctual_ops (k, now) = (0 < k, (k - 1, now))" by (simp add: punctual_ops_def)
  then obtain e2 t2 rng2 stats2 where "send_batch ne punctual_ops BATCH ((k - 1, now), t, rng, stats) =
      Some (e2, t2, rng2, stats2)" and e': "(k', now') = pace punctual_ops pps nsent' e2"
    using step by (cases "send_batch ne punctual_ops BATCH ((k - 1, now), t, rng, stats)") (auto split: if_splits)
  with punctual_send_batch [OF this(1)] assms(2) show ?thesis
    by (auto simp: pace_def punctual_ops_def checked_sub_def Let_def split: if_splits)
qed

lemma punctual_turns:
  "blast_turns ne punctual_ops 1 n (((k, 0), t, rng, stats), 0) = Some (((k', now), t', rng', stats'), nsent) \<Longrightarrow>
     64 * n < 2 ^ 64 \<Longrightarrow> now = 64 * n * 10 ^ 9"
proof (induction n arbitrary: k' now t' rng' stats' nsent)
  case (Suc n)
  from Suc.prems(1) obtain st1 where first: "blast_turns ne punctual_ops 1 n (((k, 0), t, rng, stats), 0) = Some st1"
    and step: "blast_step ne punctual_ops 1 st1 = Some (Inr (((k', now), t', rng', stats'), nsent))"
    by (rule blast_turns_SucE)
  obtain k1 now1 t1 rng1 stats1 nsent1 where st1: "st1 = (((k1, now1), t1, rng1, stats1), nsent1)" by (metis prod.exhaust)
  have "nsent = of_nat (64 * Suc n)" using blast_turns_post [OF Suc.prems(1)] by blast
  then have "unat nsent = 64 * Suc n"
    using Suc.prems(2) by (simp only: unat_u64)
  moreover have "now1 = 64 * n * 10 ^ 9" using Suc.IH [OF first [unfolded st1]] Suc.prems(2) by simp
  ultimately show ?case using punctual_step [OF step [unfolded st1]] by simp
qed simp

lemma low_rate_exceeded:
  assumes "0 < pps" and "unat pps < threads" and "threads < 2 ^ 64" and "0 < n" and "64 * n < 2 ^ 64"
  shows "\<exists>k' now t' rng' stats'. blast_turns ne punctual_ops (per_thread_pps pps threads) n (ex_thread n seed, 0) =
      Some (((k', now), t', rng', stats'), of_nat (64 * n)) \<and>
    unat pps * now < threads * (64 * n) * 10 ^ 9"
proof -
  have "0 < threads" using assms(2) by simp
  then have "threads * unat (per_thread_pps pps threads) = threads"
    using per_thread_pps_total [of threads pps] assms(1-3) by simp
  then have "unat (per_thread_pps pps threads) = unat (1 :: u64)" using \<open>0 < threads\<close> by simp
  then have one: "per_thread_pps pps threads = 1" by (simp only: word_unat_eq_iff)
  obtain k' now t' rng' stats' nsent where
    turns: "blast_turns ne punctual_ops 1 n (ex_thread n seed, 0) = Some (((k', now), t', rng', stats'), nsent)"
    using ex_thread_turns [of ne 1 n seed] by (metis prod.exhaust)
  then have "now = 64 * n * 10 ^ 9" "nsent = of_nat (64 * n)"
    using punctual_turns [OF turns [unfolded ex_thread_def]] blast_turns_post [OF turns [unfolded ex_thread_def]] assms(5)
    by simp_all
  then show ?thesis using turns assms(2,4) by (simp add: one)
qed

section \<open>Properties\<close>

text \<open>C22: A sender thread that can bind and connect sends until the stop flag is cleared and
  then returns: 64 datagrams for each time it reads the flag as set, the \<open>i\<close>-th being the
  Initial of the requested size with the connection ID made of its own three generator
  outputs. No connection ID occurs twice among the first \<open>2 ^ 64\<close> datagrams, and every send
  is counted once, as sent or as an error.\<close>

theorem blast_sends_fresh_initials:
  assumes "flag_clears ops remaining" and "1200 \<le> sz" and "sz \<le> 16433"
    and "op_bind ops (is_ipv4 target) e = (Ok (), e1)" and "op_connect ops target e1 = (Ok (), e2)"
  shows "\<exists>e' stats' log. blast ne ops target sz pps seed e stats = Some (BlastReturn (Ok ()), e', stats') \<and>
    flood_log ops e2 log e' \<and> length log = 64 * remaining e2 \<and>
    map fst log = flood_packets ne sz seed (length log) \<and>
    (length log \<le> 2 ^ 64 \<longrightarrow> distinct (map (destination_cid \<circ> fst) log)) \<and>
    stats' = foldl count_send stats (map snd log) \<and>
    stat_sent stats' + stat_errors stats' = stat_sent stats + stat_errors stats + of_nat (length log)"
proof -
  let ?t = "\<lparr>template_bytes = initial_packet sz (replicate 20 0), dcid_offset = 6\<rparr>"
  have "flood_inv ne ops sz seed e2 stats [] (e2, ?t, SplitMix64 seed, stats)"
    by (auto simp: flood_inv_def flood_packets_def rng_at_0 intro: flood_log.start exI [of _ "replicate 20 0"])
  from blast_loop [OF this assms(1), of pps 0] obtain e' log
    where "iterate (blast_step ne ops pps) ((e2, ?t, SplitMix64 seed, stats), 0) =
        Some (BlastReturn (Ok ()), e', foldl count_send stats (map snd log))"
      and "flood_log ops e2 log e'" and packets: "map fst log = flood_packets ne sz seed (length log)"
      and "length log = 64 * remaining e2"
    by auto
  moreover have "blast ne ops target sz pps seed e stats =
      iterate (blast_step ne ops pps) ((e2, ?t, SplitMix64 seed, stats), 0)"
    using assms(2-5) by (simp add: blast_def InitialTemplate_new_eq)
  moreover have "distinct (map (destination_cid \<circ> fst) log)" if "length log \<le> 2 ^ 64"
    using flood_packets_distinct [OF that, of ne sz seed] packets by (metis map_map)
  ultimately show ?thesis
    using count_send_total [of stats "map snd log"] by (metis length_map)
qed

theorem blast_sends_fresh_initials_witness:
  "\<exists>e' stats' log. blast LittleEndian countdown_ops \<lparr>ip = V4 LOCALHOST, port = 4433\<rparr> 1200 0 7 2
      \<lparr>stat_sent = 0, stat_bytes = 0, stat_errors = 0\<rparr> = Some (BlastReturn (Ok ()), e', stats') \<and>
    flood_log countdown_ops 2 log e' \<and> length log = 64 * 2 \<and>
    stat_sent stats' + stat_errors stats' = 128"
  using blast_sends_fresh_initials [OF countdown_clears, of 1200 "\<lparr>ip = V4 LOCALHOST, port = 4433\<rparr>" 2 2 2
      LittleEndian 0 7 "\<lparr>stat_sent = 0, stat_bytes = 0, stat_errors = 0\<rparr>"]
  by (auto simp: countdown_ops_def)

text \<open>C34: The pace of the threads. Take any number of threads at the head of their loops, thread
  \<open>i\<close> after \<open>n i\<close> turns, all within a time \<open>T\<close> of their start. Each has tried to send \<open>64 * n i\<close>
  datagrams, counts each of them once, and will go on from there; and all together have sent at
  most at the rate of \<open>max pps threads\<close> packets a second over \<open>T\<close>, up to the rounding of the
  schedule. So \<open>--pps\<close> bounds the total rate at the heads of the loops when it is at least the number
  of threads. Below that the bound is one packet a second per thread, and it is reached: where sends
  take no time and sleeps are exact, a thread needs so little time for its \<open>64 * m\<close> datagrams that
  \<open>threads\<close> of them send more than \<open>pps\<close> packets a second. Between two heads a thread sends one
  unpaced batch of 64.\<close>

theorem paced_threads_keep_the_rate:
  assumes "keeps_time ops clock" and "schedule_within ops slack"
    and "0 < pps" and "0 < threads" and "threads < 2 ^ 64"
    and "\<And>i. i < threads \<Longrightarrow>
      blast_turns ne ops (per_thread_pps pps threads) (n i) ((e i, t i, SplitMix64 (seed i), stats i), 0) =
        Some ((e' i, t' i, rng' i, stats' i), nsent i) \<and>
      64 * n i < 2 ^ 64 \<and> clock (e' i) \<le> T"
  shows "(\<Sum>i<threads. 64 * n i) * 10 ^ 9 \<le> max (unat pps) threads * (T + slack) \<and>
    (\<forall>i < threads. nsent i = of_nat (64 * n i) \<and>
       stat_sent (stats' i) + stat_errors (stats' i) =
         stat_sent (stats i) + stat_errors (stats i) + of_nat (64 * n i) \<and>
       iterate (blast_step ne ops (per_thread_pps pps threads)) ((e i, t i, SplitMix64 (seed i), stats i), 0) =
         iterate (blast_step ne ops (per_thread_pps pps threads)) ((e' i, t' i, rng' i, stats' i), nsent i)) \<and>
    (unat pps < threads \<longrightarrow> 0 < m \<longrightarrow> 64 * m < 2 ^ 64 \<longrightarrow>
       (\<exists>k' now t1 rng1 stats1. blast_turns ne punctual_ops (per_thread_pps pps threads) m (ex_thread m sd, 0) =
          Some (((k', now), t1, rng1, stats1), of_nat (64 * m)) \<and>
        unat pps * now < threads * (64 * m) * 10 ^ 9))"
proof -
  let ?r = "per_thread_pps pps threads"
  have r: "0 < ?r" "threads * unat ?r \<le> max (unat pps) threads"
    using per_thread_pps_total [OF assms(4,5), of pps] assms(3)
    by (cases "threads \<le> unat pps"; auto simp: word_gt_0 max_def)+
  have "64 * n i * 10 ^ 9 \<le> unat ?r * (T + slack)" if "i < threads" for i
    using thread_rate [OF assms(1,2) r(1)] assms(6) [OF that] by blast
  then have "(\<Sum>i<threads. 64 * n i * 10 ^ 9) \<le> (\<Sum>i<threads. unat ?r * (T + slack))"
    by (intro sum_mono) simp
  also have "\<dots> = threads * unat ?r * (T + slack)" by simp
  also have "\<dots> \<le> max (unat pps) threads * (T + slack)" using r(2) by (rule mult_le_mono1)
  finally have "(\<Sum>i<threads. 64 * n i) * 10 ^ 9 \<le> max (unat pps) threads * (T + slack)"
    by (simp add: sum_distrib_right)
  then show ?thesis
  proof (intro conjI allI impI)
    fix i assume "i < threads"
    then have turns: "blast_turns ne ops ?r (n i) ((e i, t i, SplitMix64 (seed i), stats i), 0) =
        Some ((e' i, t' i, rng' i, stats' i), nsent i)"
      using assms(6) by blast
    then show "iterate (blast_step ne ops ?r) ((e i, t i, SplitMix64 (seed i), stats i), 0) =
        iterate (blast_step ne ops ?r) ((e' i, t' i, rng' i, stats' i), nsent i)"
      by (rule blast_turns_iterate)
    show "nsent i = of_nat (64 * n i)" "stat_sent (stats' i) + stat_errors (stats' i) =
        stat_sent (stats i) + stat_errors (stats i) + of_nat (64 * n i)"
      using blast_turns_post [OF turns] by blast+
  next
    assume "unat pps < threads" "0 < m" "64 * m < 2 ^ 64"
    then show "\<exists>k' now t1 rng1 stats1. blast_turns ne punctual_ops ?r m (ex_thread m sd, 0) =
        Some (((k', now), t1, rng1, stats1), of_nat (64 * m)) \<and> unat pps * now < threads * (64 * m) * 10 ^ 9"
      using low_rate_exceeded [OF assms(3) _ assms(5)] by blast
  qed
qed

theorem paced_threads_keep_the_rate_witness:
  "\<exists>e' t' rng' stats' nsent T.
     (\<forall>i < 2. blast_turns LittleEndian punctual_ops (per_thread_pps 128 2) 3 (ex_thread 3 (of_nat i), 0) =
        Some ((e' i, t' i, rng' i, stats' i), nsent i) \<and> snd (e' i) \<le> T) \<and>
     nsent (1 :: nat) = 192 \<and> (\<Sum>i<(2 :: nat). 64 * 3) * 10 ^ 9 \<le> 128 * (T + 1)"
proof -
  have "\<exists>e t rng stats ns. blast_turns LittleEndian punctual_ops (per_thread_pps 128 2) 3 (ex_thread 3 (of_nat i), 0) =
      Some ((e, t, rng, stats), ns)" for i :: nat
    using ex_thread_turns [of LittleEndian "per_thread_pps 128 2" 3 "of_nat i"] by (metis prod_cases4)
  then obtain e' t' rng' stats' nsent where turns: "blast_turns LittleEndian punctual_ops (per_thread_pps 128 2) 3
      (ex_thread 3 (of_nat i), 0) = Some ((e' i, t' i, rng' i, stats' i), nsent i)" for i :: nat
    by metis
  let ?T = "max (snd (e' 0)) (snd (e' 1))"
  have clock: "snd (e' i) \<le> ?T" if "i < 2" for i using that by (auto simp: less_2_cases_iff)
  have head: "i < 2 \<Longrightarrow> blast_turns LittleEndian punctual_ops (per_thread_pps 128 2) 3
      (((3, 0), \<lparr>template_bytes = initial_packet 1200 (replicate 20 0), dcid_offset = 6\<rparr>, SplitMix64 (of_nat i), ex_stats), 0) =
        Some ((e' i, t' i, rng' i, stats' i), nsent i) \<and> 64 * 3 < (2 :: nat) ^ 64 \<and> snd (e' i) \<le> ?T" for i
    using turns [of i] clock [of i] by (simp add: ex_thread_def)
  have "0 < (128 :: u64)" "0 < (2 :: nat)" "2 < (2 :: nat) ^ 64" by simp_all
  from paced_threads_keep_the_rate [OF punctual_keeps_time punctual_schedule this, of LittleEndian "\<lambda>_. 3"
      "\<lambda>_. (3, 0)" "\<lambda>_. \<lparr>template_bytes = initial_packet 1200 (replicate 20 0), dcid_offset = 6\<rparr>" of_nat "\<lambda>_. ex_stats",
      OF head]
  have "(\<Sum>i<(2 :: nat). 64 * 3) * 10 ^ 9 \<le> max (unat (128 :: u64)) 2 * (?T + 1)" "\<forall>i < 2. nsent i = of_nat (64 * 3)"
    by blast+
  then show ?thesis
    using turns clock
    by (intro exI [of _ e'] exI [of _ t'] exI [of _ rng'] exI [of _ stats'] exI [of _ nsent] exI [of _ ?T]) simp
qed

text \<open>No two threads are given the same seed, for any number of threads up to \<open>2 ^ 64\<close>,
  also when spawning stops at a thread that cannot be created; when all can be, every
  thread has been given one.\<close>

lemma worker_seeds_distinct:
  assumes "n \<le> 2 ^ 64"
  shows "case spawn_workers (spawn_log ok) [0..<n] (SplitMix64 s) [] of
    (r, seeds) \<Rightarrow> distinct seeds \<and> length seeds \<le> n \<and>
      ((\<forall>i < n. ok i) \<longrightarrow> r = Ok [0..<n] \<and> length seeds = n)"
proof -
  obtain m where m: "m \<le> n" and
    seeds: "snd (spawn_workers (spawn_log ok) [0..<n] (SplitMix64 s) []) = map (\<lambda>i. nth_output s (Suc i)) [0..<m]"
    and all: "(\<forall>i < n. ok i) \<Longrightarrow> m = n \<and> fst (spawn_workers (spawn_log ok) [0..<n] (SplitMix64 s) []) = Ok [0..<n]"
    using spawn_workers_seeds [of n ok 0 s "[]"] that
    by (simp only: add_0 append_Nil rng_at_0 Ball_def atLeastLessThan_iff le0 simp_thms) blast
  have "inj_on (\<lambda>i. nth_output s (Suc i)) (set [0..<m])"
    using nth_output_inject [of s 1 _ 1 _ 1] m assms by (intro inj_onI) simp
  then show ?thesis using m seeds all by (auto simp: distinct_map)
qed

end
