(* ===== verification/Blaster_Threads.thy ===== *)
theory Blaster_Threads
  imports Blaster
begin

text \<open>
  The blaster of \<open>src/bin/blaster.rs\<close> as the concurrent program it is: sender threads, the
  reporter and \<open>main\<close> run interleaved over the shared stop flag and the shared counters. Every
  \<open>fetch_add\<close>, load and store of an atomic, every \<open>send\<close> and every \<open>join\<close> is one step; the
  results of the system calls are arbitrary. Each thread carries the list of the datagrams it has
  handed to the socket with their results, which no step reads.
\<close>

section \<open>A sender thread\<close>

text \<open>
  Where a thread stands in its loop: before it loads the flag, with \<open>k\<close> sends of the batch left,
  with a result it has not counted, between the two counters of a successful send, or pacing.
\<close>

datatype thread_pc =
    AtFlag
  | AtSend nat
  | AtCount nat "io_error + nat"
  | AtBytes nat nat
  | Pacing

text \<open>Inside the loop a thread has its template, its generator and its own count \<open>sent\<close>.\<close>

datatype thread_state =
    Starting
  | Looping InitialTemplate SplitMix64 u64 thread_pc
  | Ended blast_out

record thread =
  th_seed :: u64
  th_state :: thread_state
  th_log :: "(bytes \<times> (io_error + nat)) list"

definition thread_init :: "u64 \<Rightarrow> thread" where
  "thread_init seed = \<lparr>th_seed = seed, th_state = Starting, th_log = []\<rparr>"

inductive thread_step :: "endianness \<Rightarrow> nat \<Rightarrow> u64 \<Rightarrow> bool \<Rightarrow> Stats \<times> thread \<Rightarrow> Stats \<times> thread \<Rightarrow> bool"
  for ne sz pps running where
  socket_fails: "th_state th = Starting \<Longrightarrow>
    thread_step ne sz pps running (st, th) (st, th\<lparr>th_state := Ended (BlastReturn (Err (BlastIo x)))\<rparr>)"
| template_fails: "th_state th = Starting \<Longrightarrow> InitialTemplate_new sz = Some (Err e) \<Longrightarrow>
    thread_step ne sz pps running (st, th) (st, th\<lparr>th_state := Ended (BlastReturn (Err (BlastTemplate e)))\<rparr>)"
| template_panics: "th_state th = Starting \<Longrightarrow> InitialTemplate_new sz = None \<Longrightarrow>
    thread_step ne sz pps running (st, th) (st, th\<lparr>th_state := Ended BlastPanic\<rparr>)"
| starts: "th_state th = Starting \<Longrightarrow> InitialTemplate_new sz = Some (Ok t) \<Longrightarrow>
    thread_step ne sz pps running (st, th) (st, th\<lparr>th_state := Looping t (SplitMix64 (th_seed th)) 0 AtFlag\<rparr>)"
| stops: "th_state th = Looping t g n AtFlag \<Longrightarrow> \<not> running \<Longrightarrow>
    thread_step ne sz pps running (st, th) (st, th\<lparr>th_state := Ended (BlastReturn (Ok ()))\<rparr>)"
| enters: "th_state th = Looping t g n AtFlag \<Longrightarrow> running \<Longrightarrow>
    thread_step ne sz pps running (st, th) (st, th\<lparr>th_state := Looping t g n (AtSend BATCH)\<rparr>)"
| randomize_panics: "th_state th = Looping t g n (AtSend (Suc k)) \<Longrightarrow> randomize_dcid ne t g = None \<Longrightarrow>
    thread_step ne sz pps running (st, th) (st, th\<lparr>th_state := Ended BlastPanic\<rparr>)"
| sends: "th_state th = Looping t g n (AtSend (Suc k)) \<Longrightarrow> randomize_dcid ne t g = Some (t', g') \<Longrightarrow>
    thread_step ne sz pps running (st, th)
      (st, th\<lparr>th_state := Looping t' g' n (AtCount k r), th_log := th_log th @ [(template_bytes t', r)]\<rparr>)"
| counts_sent: "th_state th = Looping t g n (AtCount k (Ok len)) \<Longrightarrow>
    thread_step ne sz pps running (st, th)
      (st\<lparr>stat_sent := stat_sent st + 1\<rparr>, th\<lparr>th_state := Looping t g n (AtBytes k len)\<rparr>)"
| counts_bytes: "th_state th = Looping t g n (AtBytes k len) \<Longrightarrow>
    thread_step ne sz pps running (st, th)
      (st\<lparr>stat_bytes := stat_bytes st + of_nat len\<rparr>, th\<lparr>th_state := Looping t g n (AtSend k)\<rparr>)"
| counts_error: "th_state th = Looping t g n (AtCount k (Err x)) \<Longrightarrow>
    thread_step ne sz pps running (st, th)
      (st\<lparr>stat_errors := stat_errors st + 1\<rparr>, th\<lparr>th_state := Looping t g n (AtSend k)\<rparr>)"
| ends_batch: "th_state th = Looping t g n (AtSend 0) \<Longrightarrow>
    thread_step ne sz pps running (st, th)
      (st, th\<lparr>th_state := Looping t g (n + of_nat BATCH) (if 0 < pps then Pacing else AtFlag)\<rparr>)"
| paced: "th_state th = Looping t g n Pacing \<Longrightarrow>
    thread_step ne sz pps running (st, th) (st, th\<lparr>th_state := Looping t g n AtFlag\<rparr>)"

section \<open>The program\<close>

text \<open>
  \<open>main\<close> waits for the deadline or the interrupt, clears the flag, aborts the reporter, joins the
  threads in order and loads the three totals. The reporter sleeps, or has loaded \<open>sent\<close> and is
  about to load \<open>bytes\<close>; an abort takes effect where it sleeps.
\<close>

datatype main_pc =
    Waiting
  | Aborting
  | Joining nat
  | SumSent u64
  | SumBytes u64 u64
  | Summary u64 u64 u64
  | MainFailed io_error

datatype reporter_pc = Asleep | GotSent u64

record flood =
  fl_running :: bool
  fl_stats :: Stats
  fl_threads :: "thread list"
  fl_main :: main_pc
  fl_joined :: "join_line list"
  rep_pc :: reporter_pc
  rep_aborted :: bool
  rep_last_sent :: u64
  rep_last_bytes :: u64
  rep_lines :: "(u64 \<times> u64 \<times> u64) list"

definition flood_init :: "u64 list \<Rightarrow> flood" where
  "flood_init seeds =
     \<lparr>fl_running = True, fl_stats = \<lparr>stat_sent = 0, stat_bytes = 0, stat_errors = 0\<rparr>,
      fl_threads = map thread_init seeds, fl_main = Waiting, fl_joined = [],
      rep_pc = Asleep, rep_aborted = False, rep_last_sent = 0, rep_last_bytes = 0, rep_lines = []\<rparr>"

fun join_line_of :: "blast_out \<Rightarrow> join_line list" where
  "join_line_of (BlastReturn (Inr _)) = []"
| "join_line_of (BlastReturn (Inl x)) = [SenderFailed x]"
| "join_line_of BlastPanic = [SenderPanicked]"

lemma join_workers_line_of:
  "join_workers join (h # hs) e =
     (let (r, e) = join h e; (lines, e) = join_workers join hs e in (join_line_of r @ lines, e))"
  by (cases "fst (join h e)" rule: join_line_of.cases) (simp_all add: case_prod_beta Let_def)

inductive flood_step :: "endianness \<Rightarrow> nat \<Rightarrow> u64 \<Rightarrow> flood \<Rightarrow> flood \<Rightarrow> bool" for ne sz pps where
  thread: "i < length (fl_threads w) \<Longrightarrow> (\<forall>x. fl_main w \<noteq> MainFailed x) \<Longrightarrow>
    thread_step ne sz pps (fl_running w) (fl_stats w, fl_threads w ! i) (st, th) \<Longrightarrow>
    flood_step ne sz pps w (w\<lparr>fl_stats := st, fl_threads := (fl_threads w)[i := th]\<rparr>)"
| tick: "rep_pc w = Asleep \<Longrightarrow> \<not> rep_aborted w \<Longrightarrow> (\<forall>x. fl_main w \<noteq> MainFailed x) \<Longrightarrow>
    flood_step ne sz pps w (w\<lparr>rep_pc := GotSent (stat_sent (fl_stats w))\<rparr>)"
| line: "rep_pc w = GotSent s \<Longrightarrow> b = stat_bytes (fl_stats w) \<Longrightarrow> (\<forall>x. fl_main w \<noteq> MainFailed x) \<Longrightarrow>
    flood_step ne sz pps w
      (w\<lparr>rep_pc := Asleep, rep_lines := rep_lines w @ [(s - rep_last_sent w, b - rep_last_bytes w, s)],
         rep_last_sent := s, rep_last_bytes := b\<rparr>)"
| interrupt_fails: "fl_main w = Waiting \<Longrightarrow> flood_step ne sz pps w (w\<lparr>fl_main := MainFailed x\<rparr>)"
| clears_flag: "fl_main w = Waiting \<Longrightarrow> flood_step ne sz pps w (w\<lparr>fl_running := False, fl_main := Aborting\<rparr>)"
| aborts: "fl_main w = Aborting \<Longrightarrow> flood_step ne sz pps w (w\<lparr>rep_aborted := True, fl_main := Joining 0\<rparr>)"
| joins: "fl_main w = Joining i \<Longrightarrow> i < length (fl_threads w) \<Longrightarrow> th_state (fl_threads w ! i) = Ended out \<Longrightarrow>
    flood_step ne sz pps w (w\<lparr>fl_main := Joining (Suc i), fl_joined := fl_joined w @ join_line_of out\<rparr>)"
| loads_sent: "fl_main w = Joining (length (fl_threads w)) \<Longrightarrow>
    flood_step ne sz pps w (w\<lparr>fl_main := SumSent (stat_sent (fl_stats w))\<rparr>)"
| loads_bytes: "fl_main w = SumSent s \<Longrightarrow>
    flood_step ne sz pps w (w\<lparr>fl_main := SumBytes s (stat_bytes (fl_stats w))\<rparr>)"
| loads_errors: "fl_main w = SumBytes s b \<Longrightarrow>
    flood_step ne sz pps w (w\<lparr>fl_main := Summary s b (stat_errors (fl_stats w))\<rparr>)"

abbreviation flood_run :: "endianness \<Rightarrow> nat \<Rightarrow> u64 \<Rightarrow> flood \<Rightarrow> flood \<Rightarrow> bool" where
  "flood_run ne sz pps \<equiv> (flood_step ne sz pps)\<^sup>*\<^sup>*"

section \<open>What the sends amount to\<close>

fun ok_sends :: "(bytes \<times> (io_error + nat)) list \<Rightarrow> nat" where
  "ok_sends [] = 0"
| "ok_sends ((p, Inr n) # log) = Suc (ok_sends log)"
| "ok_sends ((p, Inl x) # log) = ok_sends log"

fun ok_bytes :: "(bytes \<times> (io_error + nat)) list \<Rightarrow> nat" where
  "ok_bytes [] = 0"
| "ok_bytes ((p, Inr n) # log) = n + ok_bytes log"
| "ok_bytes ((p, Inl x) # log) = ok_bytes log"

fun failed_sends :: "(bytes \<times> (io_error + nat)) list \<Rightarrow> nat" where
  "failed_sends [] = 0"
| "failed_sends ((p, Inr n) # log) = failed_sends log"
| "failed_sends ((p, Inl x) # log) = Suc (failed_sends log)"

text \<open>The part of its log a thread has added to \<open>sent\<close> or \<open>errors\<close>, and to \<open>bytes\<close>.\<close>

definition counted :: "thread \<Rightarrow> (bytes \<times> (io_error + nat)) list" where
  "counted th = (case th_state th of Looping _ _ _ (AtCount _ _) \<Rightarrow> butlast (th_log th) | _ \<Rightarrow> th_log th)"

definition counted_bytes :: "thread \<Rightarrow> (bytes \<times> (io_error + nat)) list" where
  "counted_bytes th = (case th_state th of Looping _ _ _ (AtBytes _ _) \<Rightarrow> butlast (th_log th) | _ \<Rightarrow> counted th)"

definition tally :: "(thread \<Rightarrow> nat) \<Rightarrow> flood \<Rightarrow> nat" where
  "tally f w = sum_list (map f (fl_threads w))"

abbreviation "sent_by \<equiv> (\<lambda>th. ok_sends (counted th))"
abbreviation "bytes_by \<equiv> (\<lambda>th. ok_bytes (counted_bytes th))"
abbreviation "errors_by \<equiv> (\<lambda>th. failed_sends (counted th))"

text \<open>The sends a thread has left in its batch.\<close>

fun left_in_batch :: "thread_pc \<Rightarrow> nat" where
  "left_in_batch AtFlag = 0"
| "left_in_batch (AtSend k) = k"
| "left_in_batch (AtCount k _) = k"
| "left_in_batch (AtBytes k _) = k"
| "left_in_batch Pacing = 0"

text \<open>A result that is still to be counted is the last one of the log.\<close>

fun pending_last :: "thread_pc \<Rightarrow> (bytes \<times> (io_error + nat)) list \<Rightarrow> bool" where
  "pending_last (AtCount k r) log = (\<exists>p rest. log = rest @ [(p, r)])"
| "pending_last (AtBytes k n) log = (\<exists>p rest. log = rest @ [(p, Ok n)])"
| "pending_last _ log = True"

text \<open>
  A thread's invariant: it has sent the packets of its own seed in order, its template and its
  generator stand behind the last of them, and what is left of the batch completes a multiple of 64.
\<close>

definition thread_inv :: "endianness \<Rightarrow> nat \<Rightarrow> thread \<Rightarrow> bool" where
  "thread_inv ne sz th \<longleftrightarrow>
     map fst (th_log th) = flood_packets ne sz (th_seed th) (length (th_log th)) \<and>
     (case th_state th of
        Starting \<Rightarrow> th_log th = []
      | Looping t g n pc \<Rightarrow>
          (\<exists>d. length d = 20 \<and> t = \<lparr>template_bytes = initial_packet sz d, dcid_offset = 6\<rparr>) \<and>
          g = rng_at (th_seed th) (3 * length (th_log th)) \<and> pending_last pc (th_log th) \<and>
          64 dvd length (th_log th) + left_in_batch pc \<and> left_in_batch pc \<le> 64
      | Ended out \<Rightarrow> 64 dvd length (th_log th) \<and>
          (out = BlastPanic \<longrightarrow> InitialTemplate_new sz = None))"

section \<open>Lemmas on a thread\<close>

lemma sends_append [simp]:
  "ok_sends (xs @ ys) = ok_sends xs + ok_sends ys"
  "ok_bytes (xs @ ys) = ok_bytes xs + ok_bytes ys"
  "failed_sends (xs @ ys) = failed_sends xs + failed_sends ys"
  by (induction xs rule: ok_sends.induct) simp_all

lemma sends_length: "ok_sends xs + failed_sends xs = length xs"
  by (induction xs rule: ok_sends.induct) simp_all

lemma template_new_Ok:
  "InitialTemplate_new sz = Some (Ok t) \<Longrightarrow>
     t = \<lparr>template_bytes = initial_packet sz (replicate 20 0), dcid_offset = 6\<rparr>"
  by (auto simp: InitialTemplate_new_eq split: if_splits)

lemma thread_inv_randomize:
  assumes "thread_inv ne sz th" and "th_state th = Looping t g n (AtSend (Suc k))"
  shows "randomize_dcid ne t g =
    Some (\<lparr>template_bytes = initial_packet sz (dcid_of ne (th_seed th) (3 * length (th_log th))), dcid_offset = 6\<rparr>,
      rng_at (th_seed th) (3 * length (th_log th) + 3))"
  using assms randomize_dcid_nth by (auto simp: thread_inv_def)

lemma thread_step_inv:
  assumes "thread_step ne sz pps running (st, th) (st', th')" and "thread_inv ne sz th"
  shows "thread_inv ne sz th' \<and> th_seed th' = th_seed th"
  using assms(1)
proof (cases rule: thread_step.cases)
  case (starts t)
  then show ?thesis
    using assms(2) template_new_Ok [of sz t]
    by (auto simp: thread_inv_def flood_packets_def rng_at_0 intro: exI [of _ "replicate 20 0"])
next
  case (sends t g n k t' g' r)
  then show ?thesis
    using assms(2) thread_inv_randomize [OF assms(2)]
    by (auto simp: thread_inv_def flood_packets_Suc add.commute
        intro: exI [of _ "dcid_of ne (th_seed th) (3 * length (th_log th))"])
next
  case (randomize_panics t g n k)
  then show ?thesis using thread_inv_randomize [OF assms(2)] by simp
next
  case (ends_batch t g n)
  then show ?thesis using assms(2) by (auto simp: thread_inv_def)
qed (use assms(2) in \<open>auto simp: thread_inv_def consts_simps\<close>)

text \<open>A step adds to the counters what it moves from the pending to the counted part.\<close>

lemma thread_step_counts:
  assumes "thread_step ne sz pps running (st, th) (st', th')" and "thread_inv ne sz th"
  shows "\<exists>a b c. sent_by th' = sent_by th + a \<and> bytes_by th' = bytes_by th + b \<and> errors_by th' = errors_by th + c \<and>
    st' = \<lparr>stat_sent = stat_sent st + of_nat a, stat_bytes = stat_bytes st + of_nat b,
           stat_errors = stat_errors st + of_nat c\<rparr>"
  using assms(1)
proof (cases rule: thread_step.cases)
  case (counts_sent t g n k len)
  then show ?thesis
    using assms(2) by (intro exI [of _ 1] exI [of _ 0]) (auto simp: thread_inv_def counted_def counted_bytes_def)
next
  case (counts_bytes t g n k len)
  then show ?thesis
    using assms(2) by (intro exI [of _ 0] exI [of _ len]) (auto simp: thread_inv_def counted_def counted_bytes_def)
next
  case (counts_error t g n k x)
  then show ?thesis
    using assms(2) by (intro exI [of _ 0] exI [of _ 1]) (auto simp: thread_inv_def counted_def counted_bytes_def)
qed (auto simp: counted_def counted_bytes_def)

text \<open>A thread that has ended takes no step, and one that has not can take one.\<close>

lemma ended_no_step:
  assumes "thread_step ne sz pps running (st, th) (st', th')"
  shows "th_state th \<noteq> Ended out"
  using assms by (cases rule: thread_step.cases) simp_all

lemma thread_can_step:
  assumes "\<And>out. th_state th \<noteq> Ended out"
  shows "\<exists>st' th'. thread_step ne sz pps running (st, th) (st', th')"
proof (cases "th_state th")
  case Starting
  then show ?thesis by (blast intro: thread_step.socket_fails)
next
  case (Looping t g n pc)
  show ?thesis
  proof (cases pc)
    case AtFlag
    then show ?thesis using Looping thread_step.stops thread_step.enters by (cases running) metis+
  next
    case (AtSend k)
    show ?thesis
    proof (cases k)
      case 0
      then show ?thesis using Looping AtSend thread_step.ends_batch by metis
    next
      case (Suc m)
      then show ?thesis
        using Looping AtSend thread_step.randomize_panics thread_step.sends
        by (cases "randomize_dcid ne t g") (metis, metis surj_pair)
    qed
  next
    case (AtCount k r)
    then show ?thesis using Looping thread_step.counts_sent thread_step.counts_error by (cases r) metis+
  next
    case (AtBytes k len)
    then show ?thesis using Looping thread_step.counts_bytes by metis
  next
    case Pacing
    then show ?thesis using Looping thread_step.paced by metis
  qed
next
  case (Ended out)
  then show ?thesis using assms by blast
qed

text \<open>Steps a thread has left once it reads the flag as cleared.\<close>

fun loop_steps :: "thread_pc \<Rightarrow> nat" where
  "loop_steps AtFlag = 1"
| "loop_steps Pacing = 2"
| "loop_steps (AtSend k) = 3 * k + 3"
| "loop_steps (AtBytes k _) = 3 * k + 4"
| "loop_steps (AtCount k _) = 3 * k + 5"

fun steps_left :: "thread_state \<Rightarrow> nat" where
  "steps_left Starting = 2"
| "steps_left (Looping _ _ _ pc) = loop_steps pc"
| "steps_left (Ended _) = 0"

fun sends_left :: "thread_state \<Rightarrow> nat" where
  "sends_left (Looping _ _ _ pc) = left_in_batch pc"
| "sends_left _ = 0"

lemma thread_step_decreases:
  assumes "thread_step ne sz pps False (st, th) (st', th')"
  shows "steps_left (th_state th') < steps_left (th_state th) \<and>
     length (th_log th') + sends_left (th_state th') \<le> length (th_log th) + sends_left (th_state th)"
  using assms by (cases rule: thread_step.cases) simp_all

lemma thread_inv_left:
  assumes "thread_inv ne sz th"
  shows "steps_left (th_state th) \<le> 197" and "sends_left (th_state th) \<le> 64"
proof -
  show "sends_left (th_state th) \<le> 64"
    using assms by (cases "th_state th") (auto simp: thread_inv_def)
  then show "steps_left (th_state th) \<le> 197"
  proof (cases "th_state th")
    case (Looping t g n pc)
    then show ?thesis using \<open>sends_left (th_state th) \<le> 64\<close> by (cases pc) simp_all
  qed simp_all
qed

section \<open>Invariants of the program\<close>

lemma tally_update:
  assumes "i < length (fl_threads w)" and "f th = f (fl_threads w ! i) + k"
  shows "tally f (w\<lparr>fl_stats := st, fl_threads := (fl_threads w)[i := th]\<rparr>) = tally f w + k"
proof -
  have "f (fl_threads w ! i) \<le> sum_list (map f (fl_threads w))"
    using assms(1) by (intro member_le_sum_list) simp_all
  then show ?thesis using assms by (simp add: tally_def map_update sum_list_update)
qed

lemma sends_concat:
  "ok_sends (concat xss) = sum_list (map ok_sends xss)"
  "ok_bytes (concat xss) = sum_list (map ok_bytes xss)"
  "failed_sends (concat xss) = sum_list (map failed_sends xss)"
  by (induction xss) simp_all

lemma tally_concat:
  "tally (\<lambda>th. ok_sends (th_log th)) w = ok_sends (concat (map th_log (fl_threads w)))"
  "tally (\<lambda>th. ok_bytes (th_log th)) w = ok_bytes (concat (map th_log (fl_threads w)))"
  "tally (\<lambda>th. failed_sends (th_log th)) w = failed_sends (concat (map th_log (fl_threads w)))"
  by (simp_all add: tally_def sends_concat comp_def)

lemma counted_le: "ok_sends (counted th) \<le> ok_sends (th_log th)" "ok_bytes (counted_bytes th) \<le> ok_bytes (th_log th)"
proof -
  have "ok_sends (butlast xs) \<le> ok_sends xs" "ok_bytes (butlast xs) \<le> ok_bytes xs" for xs
    by (cases xs rule: rev_cases; simp)+
  then show "ok_sends (counted th) \<le> ok_sends (th_log th)" "ok_bytes (counted_bytes th) \<le> ok_bytes (th_log th)"
    by (simp_all add: counted_def counted_bytes_def split: thread_state.split thread_pc.split)
qed

definition all_ended :: "flood \<Rightarrow> bool" where
  "all_ended w \<longleftrightarrow> (\<forall>th \<in> set (fl_threads w). \<exists>out. th_state th = Ended out)"

text \<open>Every thread keeps its own invariant, and the counters are the tallies of the counted sends.\<close>

definition counts_inv :: "endianness \<Rightarrow> nat \<Rightarrow> u64 list \<Rightarrow> flood \<Rightarrow> bool" where
  "counts_inv ne sz seeds w \<longleftrightarrow>
     map th_seed (fl_threads w) = seeds \<and> (\<forall>th \<in> set (fl_threads w). thread_inv ne sz th) \<and>
     fl_stats w = \<lparr>stat_sent = of_nat (tally sent_by w), stat_bytes = of_nat (tally bytes_by w),
                   stat_errors = of_nat (tally errors_by w)\<rparr>"

text \<open>Where \<open>main\<close> stands decides the flag, the reporter, and which threads have been joined.\<close>

definition outcome_lines :: "thread \<Rightarrow> join_line list" where
  "outcome_lines th = (case th_state th of Ended out \<Rightarrow> join_line_of out | _ \<Rightarrow> [])"

definition all_lines :: "thread list \<Rightarrow> join_line list" where
  "all_lines ths = concat (map outcome_lines ths)"

fun main_inv :: "main_pc \<Rightarrow> flood \<Rightarrow> bool" where
  "main_inv Waiting w = (fl_running w \<and> \<not> rep_aborted w \<and> fl_joined w = [])"
| "main_inv Aborting w = (\<not> fl_running w \<and> \<not> rep_aborted w \<and> fl_joined w = [])"
| "main_inv (Joining i) w = (\<not> fl_running w \<and> rep_aborted w \<and> i \<le> length (fl_threads w) \<and>
     fl_joined w = all_lines (take i (fl_threads w)) \<and>
     (\<forall>j < i. \<exists>out. th_state (fl_threads w ! j) = Ended out))"
| "main_inv (SumSent s) w = (\<not> fl_running w \<and> rep_aborted w \<and> all_ended w \<and>
     fl_joined w = all_lines (fl_threads w) \<and> s = stat_sent (fl_stats w))"
| "main_inv (SumBytes s b) w = (\<not> fl_running w \<and> rep_aborted w \<and> all_ended w \<and>
     fl_joined w = all_lines (fl_threads w) \<and> s = stat_sent (fl_stats w) \<and> b = stat_bytes (fl_stats w))"
| "main_inv (Summary s b x) w = (\<not> fl_running w \<and> rep_aborted w \<and> all_ended w \<and>
     fl_joined w = all_lines (fl_threads w) \<and> fl_stats w = \<lparr>stat_sent = s, stat_bytes = b, stat_errors = x\<rparr>)"
| "main_inv (MainFailed x) w = (\<not> rep_aborted w)"

lemma counts_inv_init: "counts_inv ne sz seeds (flood_init seeds)"
proof -
  have "sum_list (map (\<lambda>th. f (g th)) (map thread_init seeds)) = (0 :: nat)"
    if "\<And>s. f (g (thread_init s)) = 0" for f :: "(bytes \<times> (io_error + nat)) list \<Rightarrow> nat" and g
    by (induction seeds) (simp_all add: that)
  then show ?thesis
    by (auto simp: counts_inv_def flood_init_def tally_def comp_def thread_init_def thread_inv_def
        flood_packets_def counted_def counted_bytes_def)
qed

lemma counts_inv_step:
  assumes "flood_step ne sz pps w w'" and "counts_inv ne sz seeds w"
  shows "counts_inv ne sz seeds w' \<and> tally sent_by w \<le> tally sent_by w' \<and> tally bytes_by w \<le> tally bytes_by w'"
  using assms(1)
proof (cases rule: flood_step.cases)
  case (thread i st th)
  have inv: "thread_inv ne sz (fl_threads w ! i)" using assms(2) thread(2) by (simp add: counts_inv_def)
  have th: "thread_inv ne sz th" "th_seed th = th_seed (fl_threads w ! i)"
    using thread_step_inv [OF thread(4) inv] by simp_all
  obtain a b c where abc: "sent_by th = sent_by (fl_threads w ! i) + a" "bytes_by th = bytes_by (fl_threads w ! i) + b"
    "errors_by th = errors_by (fl_threads w ! i) + c"
    and st: "st = \<lparr>stat_sent = stat_sent (fl_stats w) + of_nat a, stat_bytes = stat_bytes (fl_stats w) + of_nat b,
           stat_errors = stat_errors (fl_stats w) + of_nat c\<rparr>"
    using thread_step_counts [OF thread(4) inv] by blast
  note tallies = tally_update [of i w sent_by, OF thread(2) abc(1)] tally_update [of i w bytes_by, OF thread(2) abc(2)]
    tally_update [of i w errors_by, OF thread(2) abc(3)]
  have "map th_seed ((fl_threads w)[i := th]) = seeds"
    using assms(2) thread(2) th(2) by (auto simp: counts_inv_def map_update list_update_same_conv)
  moreover have "\<forall>x \<in> set ((fl_threads w)[i := th]). thread_inv ne sz x"
    using assms(2) th(1) set_update_subset_insert [of "fl_threads w" i th] by (auto simp: counts_inv_def)
  ultimately show ?thesis
    using assms(2) thread(1) st tallies by (simp add: counts_inv_def)
qed (use assms(2) in \<open>simp_all add: counts_inv_def tally_def\<close>)

text \<open>A thread step happens in a thread that has not ended and keeps the ended ones.\<close>

lemma ended_update:
  assumes "thread_step ne sz pps running (st, ths ! i) (st', th')"
    and "j < length ths" and "th_state (ths ! j) = Ended out"
  shows "th_state (ths[i := th'] ! j) = Ended out"
  using assms ended_no_step [OF assms(1), of out] by (cases "i = j") simp_all

lemma main_inv_reporter:
  "main_inv m w \<Longrightarrow> fl_running w' = fl_running w \<Longrightarrow> fl_stats w' = fl_stats w \<Longrightarrow> fl_threads w' = fl_threads w \<Longrightarrow>
     rep_aborted w' = rep_aborted w \<Longrightarrow> fl_joined w' = fl_joined w \<Longrightarrow> main_inv m w'"
  by (cases m) (auto simp: all_ended_def)

lemma main_inv_step:
  assumes "flood_step ne sz pps w w'" and "main_inv (fl_main w) w"
  shows "main_inv (fl_main w') w'"
  using assms(1)
proof (cases rule: flood_step.cases)
  case (thread i st th)
  have not_all: "\<not> all_ended w"
    using ended_no_step [OF thread(4)] thread(2) by (auto simp: all_ended_def dest: nth_mem)
  show ?thesis
  proof (cases "fl_main w")
    case (Joining k)
    then have "\<exists>out. th_state ((fl_threads w)[i := th] ! j) = Ended out" if "j < k" for j
      using that assms(2) ended_update [OF thread(4), of j] by fastforce
    moreover have "k \<le> i"
      using Joining assms(2) ended_no_step [OF thread(4)] by (metis main_inv.simps(3) not_le)
    ultimately show ?thesis using Joining assms(2) thread(1) by (simp add: take_update_cancel)
  qed (use assms(2) thread(1,3) not_all in auto)
next
  case (loads_sent)
  then show ?thesis using assms(2) by (auto simp: all_ended_def in_set_conv_nth)
next
  case (joins i out)
  then show ?thesis
    using assms(2) by (auto simp: less_Suc_eq all_lines_def outcome_lines_def take_Suc_conv_app_nth)
qed (use assms(2) in \<open>auto simp: all_ended_def all_lines_def intro: main_inv_reporter\<close>)

text \<open>
  The reporter: while fewer than \<open>2 ^ 64\<close> datagrams and bytes have been counted, what it has loaded
  is not above the counters, the loads never go down, and the printed lines add up to the last load.
\<close>

definition rep_inv :: "flood \<Rightarrow> bool" where
  "rep_inv w \<longleftrightarrow>
     (tally sent_by w < 2 ^ 64 \<longrightarrow>
        unat (rep_last_sent w) \<le> tally sent_by w \<and>
        (\<forall>s. rep_pc w = GotSent s \<longrightarrow> unat (rep_last_sent w) \<le> unat s \<and> unat s \<le> tally sent_by w) \<and>
        sum_list (map (\<lambda>(a, b, c). unat a) (rep_lines w)) = unat (rep_last_sent w)) \<and>
     (tally bytes_by w < 2 ^ 64 \<longrightarrow>
        unat (rep_last_bytes w) \<le> tally bytes_by w \<and>
        sum_list (map (\<lambda>(a, b, c). unat b) (rep_lines w)) = unat (rep_last_bytes w))"

lemma unat_of_nat_64: "n < 2 ^ 64 \<Longrightarrow> unat (of_nat n :: u64) = n"
  by (simp add: unat_of_nat take_bit_nat_eq_self)

lemma rep_inv_step:
  assumes "flood_step ne sz pps w w'" and "counts_inv ne sz seeds w" and "rep_inv w"
  shows "rep_inv w'"
  using assms(1)
proof (cases rule: flood_step.cases)
  case (thread i st th)
  then show ?thesis
    using assms(3) counts_inv_step [OF assms(1,2)] by (auto simp: rep_inv_def)
next
  case tick
  then show ?thesis
    using assms(2,3) by (auto simp: rep_inv_def counts_inv_def unat_of_nat_64 tally_def)
next
  case (line s b)
  have "unat (s - rep_last_sent w) = unat s - unat (rep_last_sent w)"
    if "unat (rep_last_sent w) \<le> unat s" for s
    using that by (simp add: unat_sub word_le_nat_alt)
  then show ?thesis
    using line assms(2,3) by (auto simp: rep_inv_def counts_inv_def unat_of_nat_64 tally_def unat_sub word_le_nat_alt)
qed (use assms(3) in \<open>simp_all add: rep_inv_def tally_def\<close>)

definition flood_inv_all :: "endianness \<Rightarrow> nat \<Rightarrow> u64 list \<Rightarrow> flood \<Rightarrow> bool" where
  "flood_inv_all ne sz seeds w \<longleftrightarrow> counts_inv ne sz seeds w \<and> main_inv (fl_main w) w \<and> rep_inv w"

lemma flood_inv_init: "flood_inv_all ne sz seeds (flood_init seeds)"
  using counts_inv_init by (auto simp: flood_inv_all_def rep_inv_def flood_init_def)

lemma flood_inv_step: "flood_inv_all ne sz seeds w \<Longrightarrow> flood_step ne sz pps w w' \<Longrightarrow> flood_inv_all ne sz seeds w'"
  using counts_inv_step main_inv_step rep_inv_step unfolding flood_inv_all_def by blast

text \<open>What the reporter has printed is \<open>report\<close> on the values it has loaded.\<close>

lemma report_snoc:
  "report s b (ticks @ [t]) = report s b ticks @
     [(stat_sent t - stat_sent (last (\<lparr>stat_sent = s, stat_bytes = b, stat_errors = 0\<rparr> # ticks)),
       stat_bytes t - stat_bytes (last (\<lparr>stat_sent = s, stat_bytes = b, stat_errors = 0\<rparr> # ticks)), stat_sent t)]"
  by (induction ticks arbitrary: s b) auto

lemma reporter_reports:
  assumes "flood_run ne sz pps (flood_init seeds) w"
  shows "\<exists>ticks. rep_lines w = report 0 0 ticks \<and>
    rep_last_sent w = stat_sent (last (\<lparr>stat_sent = 0, stat_bytes = 0, stat_errors = 0\<rparr> # ticks)) \<and>
    rep_last_bytes w = stat_bytes (last (\<lparr>stat_sent = 0, stat_bytes = 0, stat_errors = 0\<rparr> # ticks))"
  using assms
proof (induction rule: rtranclp_induct)
  case base
  then show ?case by (intro exI [of _ "[]"]) (simp add: flood_init_def)
next
  case (step w w')
  then obtain ticks where ticks: "rep_lines w = report 0 0 ticks"
    "rep_last_sent w = stat_sent (last (\<lparr>stat_sent = 0, stat_bytes = 0, stat_errors = 0\<rparr> # ticks))"
    "rep_last_bytes w = stat_bytes (last (\<lparr>stat_sent = 0, stat_bytes = 0, stat_errors = 0\<rparr> # ticks))"
    by blast
  from step(2) show ?case
  proof (cases rule: flood_step.cases)
    case (line s b)
    then show ?thesis
      using ticks by (intro exI [of _ "ticks @ [\<lparr>stat_sent = s, stat_bytes = b, stat_errors = 0\<rparr>]"]) (simp add: report_snoc)
  qed (use ticks in \<open>intro exI [of _ ticks]; simp\<close>)+
qed

section \<open>The program stops\<close>

fun main_steps :: "main_pc \<Rightarrow> nat \<Rightarrow> nat" where
  "main_steps (Joining i) n = n - i + 3"
| "main_steps (SumSent _) n = 2"
| "main_steps (SumBytes _ _) n = 1"
| "main_steps _ n = 0"

definition stop_measure :: "flood \<Rightarrow> nat" where
  "stop_measure w = tally (\<lambda>th. steps_left (th_state th)) w + main_steps (fl_main w) (length (fl_threads w)) +
     (case rep_pc w of Asleep \<Rightarrow> 0 | GotSent _ \<Rightarrow> 1)"

abbreviation "handed_over \<equiv> (\<lambda>th. length (th_log th))"
abbreviation "handed_over_at_most \<equiv> (\<lambda>th. length (th_log th) + sends_left (th_state th))"

lemma tally_less:
  assumes "i < length (fl_threads w)" and "f th < f (fl_threads w ! i)"
  shows "tally f (w\<lparr>fl_stats := st, fl_threads := (fl_threads w)[i := th]\<rparr>) < tally f w"
proof -
  have "f (fl_threads w ! i) \<le> sum_list (map f (fl_threads w))"
    using assms(1) by (intro member_le_sum_list) simp_all
  then show ?thesis using assms by (simp add: tally_def map_update sum_list_update)
qed

lemma tally_le:
  assumes "i < length (fl_threads w)" and "f th \<le> f (fl_threads w ! i)"
  shows "tally f (w\<lparr>fl_stats := st, fl_threads := (fl_threads w)[i := th]\<rparr>) \<le> tally f w"
  using tally_less [OF assms(1), of f th st] tally_update [OF assms(1), of f th 0 st] assms(2)
  by (cases "f th < f (fl_threads w ! i)") simp_all

lemma tally_mono: "(\<And>th. th \<in> set (fl_threads w) \<Longrightarrow> f th \<le> g th) \<Longrightarrow> tally f w \<le> tally g w"
  unfolding tally_def by (rule sum_list_mono)

text \<open>Once the reporter is aborted every step brings the end nearer and no thread starts a batch.\<close>

lemma stopped_step:
  assumes "flood_step ne sz pps w w'" and "rep_aborted w" and "main_inv (fl_main w) w"
  shows "stop_measure w' < stop_measure w \<and> rep_aborted w' \<and>
    tally handed_over_at_most w' \<le> tally handed_over_at_most w \<and> length (fl_threads w') = length (fl_threads w)"
  using assms(1)
proof (cases rule: flood_step.cases)
  case (thread i st th)
  have "\<not> fl_running w" using assms(2,3) thread(3) by (cases "fl_main w") auto
  then have "thread_step ne sz pps False (fl_stats w, fl_threads w ! i) (st, th)" using thread(4) by simp
  note dec = thread_step_decreases [OF this]
  show ?thesis
    using tally_less [OF thread(2), of "\<lambda>th. steps_left (th_state th)" th st]
      tally_le [OF thread(2), of handed_over_at_most th st] dec assms(2) thread(1)
    by (simp add: stop_measure_def)
qed (use assms(2,3) in \<open>auto simp: stop_measure_def tally_def\<close>)

interpretation fl: stopping_system "flood_step ne sz pps" "flood_init seeds" "flood_inv_all ne sz seeds"
  rep_aborted stop_measure "tally handed_over_at_most"
  for ne sz pps seeds
proof
  show "flood_inv_all ne sz seeds (flood_init seeds)" by (rule flood_inv_init)
  show "flood_inv_all ne sz seeds w'" if "flood_inv_all ne sz seeds w" "flood_step ne sz pps w w'" for w w'
    using that by (rule flood_inv_step)
  show "rep_aborted w' \<and> stop_measure w' < stop_measure w \<and> tally handed_over_at_most w' \<le> tally handed_over_at_most w"
    if "flood_inv_all ne sz seeds w" "rep_aborted w" "flood_step ne sz pps w w'" for w w'
    using that stopped_step [of ne sz pps w w'] by (simp add: flood_inv_all_def)
qed

lemma stop_measure_bound:
  assumes "counts_inv ne sz seeds w" and "main_inv (fl_main w) w"
  shows "stop_measure w \<le> 198 * length seeds + 4"
proof -
  have "tally (\<lambda>th. steps_left (th_state th)) w \<le> tally (\<lambda>th. 197) w"
    using assms(1) thread_inv_left(1) by (intro tally_mono) (auto simp: counts_inv_def)
  moreover have "tally (\<lambda>th. 197) w = 197 * length seeds"
    using assms(1) by (auto simp: tally_def counts_inv_def sum_list_triv)
  moreover have "main_steps (fl_main w) (length (fl_threads w)) \<le> length seeds + 3"
    using assms(1) by (cases "fl_main w") (auto simp: counts_inv_def)
  ultimately show ?thesis by (simp add: stop_measure_def split: reporter_pc.split)
qed

text \<open>A state in which nothing can happen any more has printed the summary.\<close>

lemma stuck_is_summary:
  assumes "\<And>w'. \<not> flood_step ne sz pps w w'" and "rep_aborted w" and "main_inv (fl_main w) w"
  shows "\<exists>s b x. fl_main w = Summary s b x"
proof (cases "fl_main w")
  case (Joining i)
  show ?thesis
  proof (cases "i < length (fl_threads w)")
    case True
    then show ?thesis
      using thread_can_step [of "fl_threads w ! i" ne sz pps "fl_running w" "fl_stats w"] assms(1) Joining
        flood_step.joins [of w i] flood_step.thread [of i w]
      by (metis main_pc.distinct(29))
  next
    case False
    then show ?thesis using Joining assms(1,3) flood_step.loads_sent [of w] by (metis main_inv.simps(3) le_neq_implies_less)
  qed
next
  case (SumSent s)
  then show ?thesis using assms(1) flood_step.loads_bytes by metis
next
  case (SumBytes s b)
  then show ?thesis using assms(1) flood_step.loads_errors by metis
qed (use assms(2,3) in auto)

section \<open>A thread on its own\<close>

text \<open>
  The steps of a thread refine the loop of \<open>blast\<close>: a batch, and a whole turn that reads the flag
  as set, are runs of the thread's steps with the same counters, template, generator and count.
\<close>

lemma send_batch_steps:
  assumes "send_batch ne ops k (e, t, g, st) = Some (e', t', g', st')"
    and "th_state th = Looping t g n (AtSend k)"
  shows "\<exists>th'. (thread_step ne sz pps running)\<^sup>*\<^sup>* (st, th) (st', th') \<and>
    th_state th' = Looping t' g' n (AtSend 0) \<and> length (th_log th') = length (th_log th) + k"
  using assms
proof (induction k arbitrary: e t g st th)
  case 0
  then show ?case by auto
next
  case (Suc k)
  obtain t1 g1 where r: "randomize_dcid ne t g = Some (t1, g1)"
    using Suc.prems(1) by (auto split: Option.bind_splits)
  obtain res e1 where s: "op_send ops (template_bytes t1) e = (res, e1)" by fastforce
  have rest: "send_batch ne ops k (e1, t1, g1, count_send st res) = Some (e', t', g', st')"
    using Suc.prems(1) r s by simp
  let ?th1 = "th\<lparr>th_state := Looping t1 g1 n (AtCount k res), th_log := th_log th @ [(template_bytes t1, res)]\<rparr>"
  let ?th2 = "?th1\<lparr>th_state := Looping t1 g1 n (AtSend k)\<rparr>"
  have sent: "thread_step ne sz pps running (st, th) (st, ?th1)"
    using Suc.prems(2) r by (rule thread_step.sends)
  have "(thread_step ne sz pps running)\<^sup>*\<^sup>* (st, ?th1) (count_send st res, ?th2)"
  proof (cases res)
    case (Inl x)
    have "thread_step ne sz pps running (st, ?th1) (st\<lparr>stat_errors := stat_errors st + 1\<rparr>, ?th2)"
      by (rule thread_step.counts_error [of _ t1 g1 n k x]) (simp add: Inl)
    then show ?thesis by (simp add: count_send_def Inl)
  next
    case (Inr len)
    let ?thb = "?th1\<lparr>th_state := Looping t1 g1 n (AtBytes k len)\<rparr>"
    let ?stb = "st\<lparr>stat_sent := stat_sent st + 1\<rparr>"
    have "thread_step ne sz pps running (st, ?th1) (?stb, ?thb)"
      by (rule thread_step.counts_sent) (simp add: Inr)
    moreover have "thread_step ne sz pps running (?stb, ?thb)
        (?stb\<lparr>stat_bytes := stat_bytes ?stb + of_nat len\<rparr>, ?thb\<lparr>th_state := Looping t1 g1 n (AtSend k)\<rparr>)"
      by (rule thread_step.counts_bytes) simp
    ultimately show ?thesis by (simp add: count_send_def Inr)
  qed
  with sent have head: "(thread_step ne sz pps running)\<^sup>*\<^sup>* (st, th) (count_send st res, ?th2)"
    by (rule converse_rtranclp_into_rtranclp)
  have "th_state ?th2 = Looping t1 g1 n (AtSend k)" by simp
  from Suc.IH [OF rest this] obtain th' where
    "(thread_step ne sz pps running)\<^sup>*\<^sup>* (count_send st res, ?th2) (st', th')"
    "th_state th' = Looping t' g' n (AtSend 0)" "length (th_log th') = length (th_log ?th2) + k"
    by blast
  then show ?case using rtranclp_trans [OF head] by auto
qed

lemma blast_turn_steps:
  assumes "blast_step ne ops pps ((e, t, g, st), n) = Some (Inr ((e', t', g', st'), n'))"
    and "th_state th = Looping t g n AtFlag"
  shows "\<exists>th'. (thread_step ne sz pps True)\<^sup>*\<^sup>* (st, th) (st', th') \<and>
    th_state th' = Looping t' g' n' AtFlag \<and> length (th_log th') = length (th_log th) + 64"
proof -
  obtain e1 e2 where b: "send_batch ne ops BATCH (e1, t, g, st) = Some (e2, t', g', st')" and n': "n' = n + of_nat BATCH"
    using assms(1) by (auto simp: blast_step_def Let_def split: prod.splits if_splits option.splits)
  let ?th1 = "th\<lparr>th_state := Looping t g n (AtSend BATCH)\<rparr>"
  have enter: "thread_step ne sz pps True (st, th) (st, ?th1)"
    using assms(2) by (rule thread_step.enters) simp
  obtain th2 where batch: "(thread_step ne sz pps True)\<^sup>*\<^sup>* (st, ?th1) (st', th2)"
    and th2: "th_state th2 = Looping t' g' n (AtSend 0)" "length (th_log th2) = length (th_log th) + 64"
    using send_batch_steps [OF b, of ?th1 n sz pps True] by (auto simp: consts_simps)
  let ?th3 = "th2\<lparr>th_state := Looping t' g' n' (if 0 < pps then Pacing else AtFlag)\<rparr>"
  let ?th4 = "th2\<lparr>th_state := Looping t' g' n' AtFlag\<rparr>"
  have "thread_step ne sz pps True (st', th2) (st', ?th3)"
    using thread_step.ends_batch [OF th2(1)] n' by simp
  moreover have "(thread_step ne sz pps True)\<^sup>*\<^sup>* (st', ?th3) (st', ?th4)"
    using thread_step.paced [of ?th3 t' g' n' ne sz pps True st'] by (cases "0 < pps") simp_all
  ultimately have "(thread_step ne sz pps True)\<^sup>*\<^sup>* (st', th2) (st', ?th4)"
    by (rule converse_rtranclp_into_rtranclp)
  with enter batch have "(thread_step ne sz pps True)\<^sup>*\<^sup>* (st, th) (st', ?th4)"
    by (meson converse_rtranclp_into_rtranclp rtranclp_trans)
  then show ?thesis using th2(2) by (intro exI [of _ ?th4]) simp
qed

text \<open>Steps of one thread are steps of the program.\<close>

lemma thread_run_lifts:
  assumes "(thread_step ne sz pps (fl_running w))\<^sup>*\<^sup>* (st, th) (st', th')" and "i < length (fl_threads w)"
    and "\<forall>x. fl_main w \<noteq> MainFailed x"
  shows "flood_run ne sz pps (w\<lparr>fl_stats := st, fl_threads := (fl_threads w)[i := th]\<rparr>)
      (w\<lparr>fl_stats := st', fl_threads := (fl_threads w)[i := th']\<rparr>)"
  using assms(1)
proof (induction "(st', th')" arbitrary: st' th' rule: rtranclp_induct)
  case base
  then show ?case by simp
next
  case (step q)
  obtain st1 th1 where q: "q = (st1, th1)" by fastforce
  let ?w = "w\<lparr>fl_stats := st1, fl_threads := (fl_threads w)[i := th1]\<rparr>"
  have "thread_step ne sz pps (fl_running ?w) (fl_stats ?w, fl_threads ?w ! i) (st', th')"
    using step(2) q assms(2) by simp
  then have "flood_step ne sz pps ?w (?w\<lparr>fl_stats := st', fl_threads := (fl_threads ?w)[i := th']\<rparr>)"
    using assms(2,3) by (intro flood_step.thread) simp_all
  then show ?case using step(3) [OF q] by simp
qed

section \<open>An example run\<close>

text \<open>One thread sends one batch, then the flag is cleared and the program runs to its summary.\<close>

lemma example_batch:
  "\<exists>st th. flood_run LittleEndian 1200 0 (flood_init [7])
      ((flood_init [7])\<lparr>fl_stats := st, fl_threads := [th]\<rparr>) \<and>
    (\<exists>t g n. th_state th = Looping t g n AtFlag) \<and> length (th_log th) = 64"
proof -
  let ?w = "flood_init [7]" and ?st = "\<lparr>stat_sent = 0, stat_bytes = 0, stat_errors = 0\<rparr>"
  let ?t = "\<lparr>template_bytes = initial_packet 1200 (replicate 20 0), dcid_offset = 6\<rparr>"
  let ?th = "(thread_init 7)\<lparr>th_state := Looping ?t (SplitMix64 7) 0 AtFlag\<rparr>"
  have "flood_inv LittleEndian countdown_ops 1200 7 (1 :: nat) ?st [] (1, ?t, SplitMix64 7, ?st)"
    by (auto simp: flood_inv_def flood_packets_def rng_at_0 intro: flood_log.start exI [of _ "replicate 20 0"])
  from blast_step_post [OF this countdown_clears, of 0 0] obtain e t g st n
    where turn: "blast_step LittleEndian countdown_ops 0 ((1, ?t, SplitMix64 7, ?st), 0) = Some (Inr ((e, t, g, st), n))"
    by auto
  obtain th where th: "(thread_step LittleEndian 1200 0 True)\<^sup>*\<^sup>* (?st, ?th) (st, th)"
    "th_state th = Looping t g n AtFlag" "length (th_log th) = 64"
    using blast_turn_steps [OF turn, of ?th 1200] by (auto simp: thread_init_def)
  have "thread_step LittleEndian 1200 0 True (?st, thread_init 7) (?st, ?th)"
    using thread_step.starts [of "thread_init 7" 1200 ?t LittleEndian 0 True ?st]
    by (simp add: InitialTemplate_new_eq thread_init_def)
  with th(1) have "(thread_step LittleEndian 1200 0 True)\<^sup>*\<^sup>* (?st, thread_init 7) (st, th)"
    by (meson converse_rtranclp_into_rtranclp)
  then have "flood_run LittleEndian 1200 0 (?w\<lparr>fl_stats := ?st, fl_threads := (fl_threads ?w)[0 := thread_init 7]\<rparr>)
      (?w\<lparr>fl_stats := st, fl_threads := (fl_threads ?w)[0 := th]\<rparr>)"
    by (intro thread_run_lifts) (simp_all add: flood_init_def)
  moreover have "?w\<lparr>fl_stats := ?st, fl_threads := (fl_threads ?w)[0 := thread_init 7]\<rparr> = ?w"
    by (simp add: flood_init_def)
  ultimately show ?thesis
    using th(2,3) by (intro exI [of _ st] exI [of _ th]) (simp add: flood_init_def)
qed

lemma example_run:
  shows example_aborted: "\<exists>w. flood_run LittleEndian 1200 0 (flood_init [7]) w \<and> rep_aborted w"
    and example_summary: "\<exists>w s b x. flood_run LittleEndian 1200 0 (flood_init [7]) w \<and> fl_main w = Summary s b x \<and>
    map handed_over (fl_threads w) = [64]"
proof -
  obtain st th t g n where run: "flood_run LittleEndian 1200 0 (flood_init [7])
      ((flood_init [7])\<lparr>fl_stats := st, fl_threads := [th]\<rparr>)"
    and th: "th_state th = Looping t g n AtFlag" "length (th_log th) = 64"
    using example_batch by blast
  let ?step = "flood_step LittleEndian 1200 0"
  let ?w1 = "(flood_init [7])\<lparr>fl_stats := st, fl_threads := [th]\<rparr>"
  let ?w2 = "?w1\<lparr>fl_running := False, fl_main := Aborting\<rparr>"
  let ?w3 = "?w2\<lparr>rep_aborted := True, fl_main := Joining 0\<rparr>"
  let ?th = "th\<lparr>th_state := Ended (BlastReturn (Ok ()))\<rparr>"
  let ?w4 = "?w3\<lparr>fl_stats := st, fl_threads := (fl_threads ?w3)[0 := ?th]\<rparr>"
  let ?w5 = "?w4\<lparr>fl_main := Joining (Suc 0), fl_joined := fl_joined ?w4 @ join_line_of (BlastReturn (Ok ()))\<rparr>"
  let ?w6 = "?w5\<lparr>fl_main := SumSent (stat_sent (fl_stats ?w5))\<rparr>"
  let ?w7 = "?w6\<lparr>fl_main := SumBytes (stat_sent (fl_stats ?w5)) (stat_bytes (fl_stats ?w6))\<rparr>"
  let ?w8 = "?w7\<lparr>fl_main := Summary (stat_sent (fl_stats ?w5)) (stat_bytes (fl_stats ?w6)) (stat_errors (fl_stats ?w7))\<rparr>"
  have "?step ?w1 ?w2" by (rule flood_step.clears_flag) (simp add: flood_init_def)
  moreover have "?step ?w2 ?w3" by (rule flood_step.aborts) simp
  ultimately have r3: "flood_run LittleEndian 1200 0 (flood_init [7]) ?w3" using run by simp
  moreover have "thread_step LittleEndian 1200 0 False (st, th) (st, ?th)"
    using th(1) by (rule thread_step.stops) simp
  then have "?step ?w3 ?w4" by (intro flood_step.thread) simp_all
  moreover have "?step ?w4 ?w5" by (rule flood_step.joins) simp_all
  moreover have "?step ?w5 ?w6" by (rule flood_step.loads_sent) simp
  moreover have "?step ?w6 ?w7" by (rule flood_step.loads_bytes) simp
  moreover have "?step ?w7 ?w8" by (rule flood_step.loads_errors) simp
  ultimately have "flood_run LittleEndian 1200 0 (flood_init [7]) ?w8"
    by (meson rtranclp.rtrancl_into_rtrancl)
  then show "\<exists>w s b x. flood_run LittleEndian 1200 0 (flood_init [7]) w \<and> fl_main w = Summary s b x \<and>
    map handed_over (fl_threads w) = [64]"
    by (intro exI [of _ ?w8] exI [of _ "stat_sent st"] exI [of _ "stat_bytes st"] exI [of _ "stat_errors st"] conjI)
      (simp_all add: th(2))
  have "rep_aborted ?w3" by simp
  with r3 show "\<exists>w. flood_run LittleEndian 1200 0 (flood_init [7]) w \<and> rep_aborted w" by blast
qed

section \<open>Properties\<close>

text \<open>C8: The blaster's summary is exact under every interleaving of its threads: when it is printed
  every thread has ended after whole batches of 64 and has sent exactly the packets of its own seed
  in order, the threads that failed or panicked have been reported in order, and the three totals
  are the successful sends, their bytes and the failed sends of all threads together (modulo \<open>2 ^ 64\<close>).\<close>

theorem summary_totals_exact:
  assumes "flood_run ne sz pps (flood_init seeds) w" and "fl_main w = Summary s b x"
  shows "map th_seed (fl_threads w) = seeds \<and>
    (\<forall>th \<in> set (fl_threads w). (\<exists>out. th_state th = Ended out) \<and> 64 dvd length (th_log th) \<and>
       map fst (th_log th) = flood_packets ne sz (th_seed th) (length (th_log th))) \<and>
    fl_joined w = concat (map outcome_lines (fl_threads w)) \<and>
    s = of_nat (ok_sends (concat (map th_log (fl_threads w)))) \<and>
    b = of_nat (ok_bytes (concat (map th_log (fl_threads w)))) \<and>
    x = of_nat (failed_sends (concat (map th_log (fl_threads w))))"
proof -
  have inv: "counts_inv ne sz seeds w" and main: "main_inv (Summary s b x) w"
    using fl.reachable_invar [OF assms(1)] assms(2) by (simp_all add: flood_inv_all_def)
  have ended: "\<exists>out. th_state th = Ended out" if "th \<in> set (fl_threads w)" for th
    using that main by (simp add: all_ended_def)
  have log: "counted th = th_log th" "counted_bytes th = th_log th" if "th \<in> set (fl_threads w)" for th
    using ended [OF that] by (auto simp: counted_def counted_bytes_def)
  have "thread_inv ne sz th" if "th \<in> set (fl_threads w)" for th
    using that inv by (simp add: counts_inv_def)
  then have "64 dvd length (th_log th) \<and> map fst (th_log th) = flood_packets ne sz (th_seed th) (length (th_log th))"
    if "th \<in> set (fl_threads w)" for th
    using that ended [OF that] unfolding thread_inv_def by fastforce
  moreover have "tally sent_by w = ok_sends (concat (map th_log (fl_threads w)))"
    "tally bytes_by w = ok_bytes (concat (map th_log (fl_threads w)))"
    "tally errors_by w = failed_sends (concat (map th_log (fl_threads w)))"
    unfolding tally_concat [symmetric] tally_def using log by (simp_all cong: map_cong)
  ultimately show ?thesis
    using inv main ended by (simp add: counts_inv_def all_lines_def)
qed

theorem summary_totals_exact_witness:
  "\<exists>(w :: flood) s b x. fl_main w = Summary s b x \<and> map handed_over (fl_threads w) = [64] \<and>
     s = of_nat (ok_sends (concat (map th_log (fl_threads w))))"
proof -
  obtain w s b x where w: "flood_run LittleEndian 1200 0 (flood_init [7]) w" "fl_main w = Summary s b x"
      "map handed_over (fl_threads w) = [64]"
    using example_summary by auto
  have s: "s = of_nat (ok_sends (concat (map th_log (fl_threads w))))"
    using summary_totals_exact [OF w(1,2)] by (elim conjE)
  show ?thesis
    by (intro exI [of _ w] exI [of _ s] exI [of _ b] exI [of _ x] conjI w(2,3) s)
qed

text \<open>C27: The lines of the report never wrap: as long as fewer than \<open>2 ^ 64\<close> datagrams and bytes
  have been sent, under every interleaving of the reporter with the threads, the packets and the
  bytes printed per tick add up to the last values loaded, which are at most what was sent.\<close>

theorem report_never_wraps:
  assumes "flood_run ne sz pps (flood_init seeds) w"
    and "ok_sends (concat (map th_log (fl_threads w))) < 2 ^ 64" and "ok_bytes (concat (map th_log (fl_threads w))) < 2 ^ 64"
  shows "(\<exists>ticks. rep_lines w = report 0 0 ticks) \<and>
    sum_list (map (\<lambda>(packets, bytes, all). unat packets) (rep_lines w)) = unat (rep_last_sent w) \<and>
    sum_list (map (\<lambda>(packets, bytes, all). unat bytes) (rep_lines w)) = unat (rep_last_bytes w) \<and>
    unat (rep_last_sent w) \<le> ok_sends (concat (map th_log (fl_threads w))) \<and>
    unat (rep_last_bytes w) \<le> ok_bytes (concat (map th_log (fl_threads w)))"
proof -
  have le: "tally sent_by w \<le> tally (\<lambda>th. ok_sends (th_log th)) w" "tally bytes_by w \<le> tally (\<lambda>th. ok_bytes (th_log th)) w"
    by (auto intro!: tally_mono counted_le)
  have "tally sent_by w < 2 ^ 64" "tally bytes_by w < 2 ^ 64"
    using le assms(2,3) by (simp_all add: tally_concat)
  moreover have "rep_inv w" using fl.reachable_invar [OF assms(1)] by (simp add: flood_inv_all_def)
  moreover have "\<exists>ticks. rep_lines w = report 0 0 ticks" using reporter_reports [OF assms(1)] by blast
  ultimately show ?thesis using le by (simp add: rep_inv_def tally_concat)
qed

theorem report_never_wraps_witness:
  "\<exists>w. flood_run LittleEndian 1200 0 (flood_init [7]) w \<and> rep_lines w = [(0, 0, 0)] \<and>
     unat (rep_last_sent w) \<le> ok_sends (concat (map th_log (fl_threads w)))"
proof -
  let ?w1 = "(flood_init [7])\<lparr>rep_pc := GotSent (stat_sent (fl_stats (flood_init [7])))\<rparr>"
  let ?w2 = "?w1\<lparr>rep_pc := Asleep, rep_lines := rep_lines ?w1 @ [(0 - rep_last_sent ?w1, 0 - rep_last_bytes ?w1, 0)],
         rep_last_sent := 0, rep_last_bytes := 0\<rparr>"
  have "flood_step LittleEndian 1200 0 (flood_init [7]) ?w1" by (rule flood_step.tick) (simp_all add: flood_init_def)
  moreover have "flood_step LittleEndian 1200 0 ?w1 ?w2" by (rule flood_step.line) (simp_all add: flood_init_def)
  ultimately have w: "flood_run LittleEndian 1200 0 (flood_init [7]) ?w2" by simp
  moreover have "unat (rep_last_sent ?w2) \<le> ok_sends (concat (map th_log (fl_threads ?w2)))"
    using report_never_wraps [OF w] by (simp add: flood_init_def thread_init_def)
  moreover have "rep_lines ?w2 = [(0, 0, 0)]" by (simp add: flood_init_def)
  ultimately show ?thesis by blast
qed

text \<open>C12: The blaster stops. Once \<open>main\<close> has cleared the flag and aborted the reporter, every run
  of the threads and \<open>main\<close> ends within \<open>198 * n + 4\<close> steps for \<open>n\<close> threads, the threads send at
  most the rest of one batch of 64 each, and where a run cannot go on the summary has been printed.\<close>

theorem blaster_stops:
  assumes "flood_run ne sz pps (flood_init seeds) w" and "rep_aborted w" and "(flood_step ne sz pps ^^ n) w w'"
  shows "n \<le> 198 * length seeds + 4 \<and>
    sum_list (map handed_over (fl_threads w')) \<le> sum_list (map handed_over (fl_threads w)) + 64 * length seeds \<and>
    ((\<nexists>w''. flood_step ne sz pps w' w'') \<longrightarrow> (\<exists>s b x. fl_main w' = Summary s b x))"
proof -
  have all: "flood_inv_all ne sz seeds w" by (rule fl.reachable_invar [OF assms(1)])
  then have inv: "counts_inv ne sz seeds w" "main_inv (fl_main w) w" by (simp_all add: flood_inv_all_def)
  have run: "n + stop_measure w' \<le> stop_measure w" "tally handed_over_at_most w' \<le> tally handed_over_at_most w"
    "rep_aborted w'" "main_inv (fl_main w') w'"
    using fl.stopped_run [OF all assms(2,3)] by (simp_all add: flood_inv_all_def)
  have "tally handed_over w' \<le> tally handed_over_at_most w'" by (intro tally_mono) simp
  moreover have "tally handed_over_at_most w \<le> tally (\<lambda>th. length (th_log th) + 64) w"
    using inv(1) thread_inv_left(2) by (intro tally_mono) (auto simp: counts_inv_def)
  moreover have "tally (\<lambda>th. length (th_log th) + 64) w = tally handed_over w + 64 * length seeds"
    using inv(1) by (auto simp: tally_def counts_inv_def sum_list_addf sum_list_triv)
  ultimately show ?thesis
    using run stop_measure_bound [OF inv] stuck_is_summary [of ne sz pps w'] by (auto simp: tally_def)
qed

theorem blaster_stops_witness:
  "\<exists>w. flood_run LittleEndian 1200 0 (flood_init [7]) w \<and> rep_aborted w \<and>
     (\<forall>n w'. (flood_step LittleEndian 1200 0 ^^ n) w w' \<longrightarrow> n \<le> 202)"
proof -
  obtain w where w: "flood_run LittleEndian 1200 0 (flood_init [7]) w" "rep_aborted w"
    using example_aborted by blast
  have "n \<le> 202" if "(flood_step LittleEndian 1200 0 ^^ n) w w'" for n w'
    using blaster_stops [OF w that] by simp
  with w show ?thesis by blast
qed

end
