(* ===== verification/Socket_Recv.thy ===== *)
theory Socket_Recv
  imports Socket_Base
begin

text \<open>
  The receive path of \<open>src/socket.rs\<close>, \<open>PacketSocket::poll_recv\<close>: the inner loop that
  fills Quinn's buffers with the datagrams that pass the authenticator, and the outer loop
  that waits for readiness. Both may run forever when datagrams keep arriving, so they are
  runs of \<open>iterate\<close>; a section below shows when they return.

  Quinn's \<open>RecvMeta\<close> is a record whose fields beyond the three the code writes are the
  record's extension; its default value is the parameter \<open>dflt\<close>.
\<close>

record RecvMeta =
  meta_addr :: SocketAddr
  meta_len :: nat
  meta_stride :: nat

section \<open>One datagram\<close>

text \<open>Whether the datagram in the first \<open>len\<close> bytes of the buffer is let through.\<close>

definition passes ::
  "block_cipher \<Rightarrow> Authenticator option \<Rightarrow> bytes \<Rightarrow> nat \<Rightarrow> SocketAddr \<Rightarrow> bool option" where
  "passes aes auth buf len addr =
     (case auth of
        None \<Rightarrow> Some True
      | Some a \<Rightarrow> do {
          datagram \<leftarrow> slice_get buf 0 len;
          verdict \<leftarrow> check aes a datagram (ip addr);
          Some (case verdict of Inl _ \<Rightarrow> False | Inr _ \<Rightarrow> True)
        })"

definition new_meta :: "'m RecvMeta_scheme \<Rightarrow> SocketAddr \<Rightarrow> nat \<Rightarrow> 'm RecvMeta_scheme" where
  "new_meta dflt addr len = dflt\<lparr>meta_addr := addr, meta_len := len, meta_stride := len\<rparr>"

section \<open>The inner loop\<close>

datatype fill_end = FillDone | FillErr io_error | FillPanic

text \<open>The loop's variables: the shared state, the buffers, the metadata and \<open>filled\<close>.\<close>

type_synonym ('e, 'm) fill_state = "'e Inner \<times> bytes list \<times> 'm RecvMeta_scheme list \<times> nat"

text \<open>One turn of the \<open>while let\<close> loop: it ends (left) or goes round again (right).\<close>

definition fill_step ::
  "('e, 'f) udp_ops \<Rightarrow> block_cipher \<Rightarrow> 'm RecvMeta_scheme \<Rightarrow> ('e, 'm) fill_state \<Rightarrow>
     (fill_end \<times> ('e, 'm) fill_state) + ('e, 'm) fill_state" where
  "fill_step ops aes dflt st =
     (case st of (inner, bufs, meta, filled) \<Rightarrow>
        (case elem_get bufs filled of
           None \<Rightarrow> Inl (FillDone, inner, bufs, meta, filled)
         | Some buf \<Rightarrow>
             (case op_try_recv_from ops (length buf) (io inner) of
                (Inr (data, len, addr), e) \<Rightarrow>
                  (let inner1 = inner\<lparr>io := e, counters := add_received len (counters inner)\<rparr>;
                       buf1 = overwrite buf data;
                       bufs1 = bufs[filled := buf1]
                   in (case passes aes (authenticator inner1) buf1 len addr of
                         None \<Rightarrow> Inl (FillPanic, inner1, bufs1, meta, filled)
                       | Some passed \<Rightarrow>
                           if \<not> passed then
                             Inr (inner1\<lparr>counters := add_rejected (counters inner1)\<rparr>,
                                  bufs1, meta, filled)
                           else (case elem_get meta filled of
                              None \<Rightarrow> Inl (FillDone, inner1, bufs1, meta, filled)
                            | Some _ \<Rightarrow>
                                Inr (inner1, bufs1, meta[filled := new_meta dflt addr len],
                                     Suc filled))))
              | (Inl err, e) \<Rightarrow>
                  (let inner1 = inner\<lparr>io := e\<rparr>
                   in if kind err = WouldBlock then Inl (FillDone, inner1, bufs, meta, filled)
                      else if is_transient err then Inl (FillDone, inner1, bufs, meta, filled)
                      else if filled > 0 then Inl (FillDone, inner1, bufs, meta, filled)
                      else Inl (FillErr err, inner1, bufs, meta, filled)))))"

definition fill_bufs ::
  "('e, 'f) udp_ops \<Rightarrow> block_cipher \<Rightarrow> 'm RecvMeta_scheme \<Rightarrow> ('e, 'm) fill_state \<Rightarrow>
     (fill_end \<times> ('e, 'm) fill_state) option" where
  "fill_bufs ops aes dflt = iterate (\<lambda>st. Some (fill_step ops aes dflt st))"

section \<open>The outer loop\<close>

datatype recv_out = RecvPanic | RecvPoll "(io_error + nat) poll"

text \<open>One turn of the \<open>loop\<close>: \<open>poll_recv\<close> returns (left) or polls for readiness again.\<close>

type_synonym ('e, 'm) recv_state = "'e Inner \<times> bytes list \<times> 'm RecvMeta_scheme list"

definition poll_recv_step ::
  "('e, 'f) udp_ops \<Rightarrow> block_cipher \<Rightarrow> 'm RecvMeta_scheme \<Rightarrow> ('e, 'm) recv_state \<Rightarrow>
     ((recv_out \<times> ('e, 'm) recv_state) + ('e, 'm) recv_state) option" where
  "poll_recv_step ops aes dflt st =
     (case st of (inner, bufs, meta) \<Rightarrow>
        (case op_poll_recv_ready ops (io inner) of
           (Pending, e) \<Rightarrow> Some (Inl (RecvPoll Pending, inner\<lparr>io := e\<rparr>, bufs, meta))
         | (Ready (Inl err), e) \<Rightarrow>
             Some (Inl (RecvPoll (Ready (Err err)), inner\<lparr>io := e\<rparr>, bufs, meta))
         | (Ready (Inr _), e) \<Rightarrow> do {
             (fin, inner1, bufs1, meta1, filled) \<leftarrow>
               fill_bufs ops aes dflt (inner\<lparr>io := e\<rparr>, bufs, meta, 0);
             Some (case fin of
                FillPanic \<Rightarrow> Inl (RecvPanic, inner1, bufs1, meta1)
              | FillErr err \<Rightarrow> Inl (RecvPoll (Ready (Err err)), inner1, bufs1, meta1)
              | FillDone \<Rightarrow>
                  if filled > 0 then Inl (RecvPoll (Ready (Ok filled)), inner1, bufs1, meta1)
                  else Inr (inner1, bufs1, meta1))
           }))"

definition poll_recv ::
  "('e, 'f) udp_ops \<Rightarrow> block_cipher \<Rightarrow> 'm RecvMeta_scheme \<Rightarrow> ('e, 'm) recv_state \<Rightarrow>
     (recv_out \<times> ('e, 'm) recv_state) option" where
  "poll_recv ops aes dflt = iterate (poll_recv_step ops aes dflt)"

section \<open>Specification\<close>

text \<open>
  The contract of \<open>try_recv_from\<close>: the reported length is the number of bytes written, and
  never more than the buffer holds.
\<close>

definition recv_contract :: "('e, 'f) udp_ops \<Rightarrow> bool" where
  "recv_contract ops \<longleftrightarrow>
     (\<forall>cap e data len addr e'. op_try_recv_from ops cap e = (Inr (data, len, addr), e') \<longrightarrow>
        length data = len \<and> len \<le> cap)"

text \<open>
  The log of a run: the datagrams read off the wire, in order, by the calls that took the
  environment from one state to another.
\<close>

inductive recv_log :: "('e, 'f) udp_ops \<Rightarrow> 'e \<Rightarrow> (bytes \<times> SocketAddr) list \<Rightarrow> 'e \<Rightarrow> bool"
  for ops where
  log_nil: "recv_log ops e [] e"
| log_ready: "op_poll_recv_ready ops e = (r, e1) \<Longrightarrow> recv_log ops e1 log e2 \<Longrightarrow> recv_log ops e log e2"
| log_error: "op_try_recv_from ops cap e = (Inl err, e1) \<Longrightarrow> recv_log ops e1 log e2 \<Longrightarrow>
     recv_log ops e log e2"
| log_got: "op_try_recv_from ops cap e = (Inr (data, len, addr), e1) \<Longrightarrow> recv_log ops e1 log e2 \<Longrightarrow>
     recv_log ops e ((take len data, addr) # log) e2"

text \<open>What the socket should do with a datagram: an absent authenticator admits everything.\<close>

definition admitted :: "block_cipher \<Rightarrow> Authenticator option \<Rightarrow> bytes \<times> SocketAddr \<Rightarrow> bool" where
  "admitted aes auth p =
     (case auth of None \<Rightarrow> True | Some a \<Rightarrow> carries_token aes a (fst p) (ip (snd p)))"

text \<open>The counters after a log, and the datagrams Quinn finds in a range of slots.\<close>

definition log_counters ::
  "block_cipher \<Rightarrow> Authenticator option \<Rightarrow> (bytes \<times> SocketAddr) list \<Rightarrow> Counters \<Rightarrow> Counters" where
  "log_counters aes auth log c = c
     \<lparr>ctr_received := ctr_received c + of_nat (length log),
      ctr_received_bytes := ctr_received_bytes c + of_nat (\<Sum>p\<leftarrow>log. length (fst p)),
      ctr_rejected := ctr_rejected c + of_nat (length (filter (Not \<circ> admitted aes auth) log))\<rparr>"

definition slots ::
  "bytes list \<Rightarrow> 'm RecvMeta_scheme list \<Rightarrow> nat \<Rightarrow> nat \<Rightarrow> (bytes \<times> SocketAddr) list" where
  "slots bufs meta i j =
     map (\<lambda>k. (take (meta_len (meta ! k)) (bufs ! k), meta_addr (meta ! k))) [i..<j]"

text \<open>
  The inner loop's contract. A datagram is \<open>lost\<close> when it is admitted after the last metadata record
  is used up and there is still a buffer to read it into: the loop ends there.
\<close>

definition fill_post ::
  "('e, 'f) udp_ops \<Rightarrow> block_cipher \<Rightarrow> ('e, 'm) fill_state \<Rightarrow> fill_end \<times> ('e, 'm) fill_state \<Rightarrow>
     bool" where
  "fill_post ops aes st out =
     (case (st, out) of ((inner, bufs, meta, filled), (fin, inner', bufs', meta', filled')) \<Rightarrow>
        (\<exists>log lost. recv_log ops (io inner) log (io inner') \<and>
           authenticator inner' = authenticator inner \<and>
           counters inner' = log_counters aes (authenticator inner) log (counters inner) \<and>
           slots bufs' meta' filled filled' @ lost = filter (admitted aes (authenticator inner)) log \<and>
           (lost = [] \<or> length lost = 1 \<and> filled' = length meta \<and> filled' < length bufs)) \<and>
        filled \<le> filled' \<and> filled' \<le> length bufs \<and> filled' \<le> length meta \<and>
        map length bufs' = map length bufs \<and> length meta' = length meta \<and>
        (\<forall>k<filled. bufs' ! k = bufs ! k \<and> meta' ! k = meta ! k) \<and>
        fin \<noteq> FillPanic \<and> (\<forall>err. fin = FillErr err \<longrightarrow> filled' = 0))"

section \<open>Lemmas on the log\<close>

lemma recv_contractD:
  "recv_contract ops \<Longrightarrow> op_try_recv_from ops cap e = (Inr (data, len, addr), e') \<Longrightarrow>
     length data = len \<and> len \<le> cap"
  unfolding recv_contract_def by blast

lemma recv_log_append:
  "recv_log ops e1 log1 e2 \<Longrightarrow> recv_log ops e2 log2 e3 \<Longrightarrow> recv_log ops e1 (log1 @ log2) e3"
  by (induction rule: recv_log.induct) (auto intro: recv_log.intros)

lemma log_counters_Nil [simp]: "log_counters aes auth [] c = c"
  by (simp add: log_counters_def)

lemma log_counters_append:
  "log_counters aes auth (xs @ ys) c = log_counters aes auth ys (log_counters aes auth xs c)"
  by (simp add: log_counters_def add.assoc)

lemma log_counters_admitted:
  "admitted aes auth p \<Longrightarrow> log_counters aes auth (p # log) c =
     log_counters aes auth log (add_received (length (fst p)) c)"
  by (simp add: log_counters_def counter_defs add.assoc)

lemma log_counters_refused:
  "\<not> admitted aes auth p \<Longrightarrow> log_counters aes auth (p # log) c =
     log_counters aes auth log (add_rejected (add_received (length (fst p)) c))"
  by (simp add: log_counters_def counter_defs add.assoc)

lemma slots_empty [simp]: "slots bufs meta i i = []"
  by (simp add: slots_def)

lemma slots_Suc:
  "i < j \<Longrightarrow> slots bufs meta i j =
     (take (meta_len (meta ! i)) (bufs ! i), meta_addr (meta ! i)) # slots bufs meta (Suc i) j"
  by (simp add: slots_def upt_conv_Cons)

lemma overwrite_take: "length data \<le> length buf \<Longrightarrow> take (length data) (overwrite buf data) = data"
  by (simp add: overwrite_def)

lemma passes_eq:
  "length data = len \<Longrightarrow> len \<le> length buf \<Longrightarrow>
     passes aes auth (overwrite buf data) len addr = Some (admitted aes auth (data, addr))"
proof (cases auth)
  case None
  then show ?thesis by (simp add: passes_def admitted_def)
next
  case (Some a)
  assume "length data = len" "len \<le> length buf"
  then have dg: "slice_get (overwrite buf data) 0 len = Some data"
    by (auto simp: slice_get_def overwrite_take)
  show ?thesis
    by (rule filt.verdict_cases [of aes a data "ip addr"])
      (auto simp: passes_def admitted_def Some dg)
qed

section \<open>One turn of the inner loop\<close>

text \<open>What a turn does with a datagram that fits its buffer, and with an error.\<close>

lemma fill_step_got:
  assumes "filled < length bufs" and "length data \<le> length (bufs ! filled)"
    and "op_try_recv_from ops (length (bufs ! filled)) (io inner) = (Inr (data, length data, addr), e)"
  shows "fill_step ops aes dflt (inner, bufs, meta, filled) =
    (let inner1 = inner\<lparr>io := e, counters := add_received (length data) (counters inner)\<rparr>;
         bufs1 = bufs[filled := overwrite (bufs ! filled) data]
     in if \<not> admitted aes (authenticator inner) (data, addr)
        then Inr (inner1\<lparr>counters := add_rejected (counters inner1)\<rparr>, bufs1, meta, filled)
        else if filled < length meta
        then Inr (inner1, bufs1, meta[filled := new_meta dflt addr (length data)], Suc filled)
        else Inl (FillDone, inner1, bufs1, meta, filled))"
  using assms passes_eq [OF refl assms(2), of aes "authenticator inner" addr]
  by (simp add: fill_step_def elem_get_def Let_def)

lemma fill_step_failed:
  assumes "filled < length bufs"
    and "op_try_recv_from ops (length (bufs ! filled)) (io inner) = (Inl err, e)"
  shows "fill_step ops aes dflt (inner, bufs, meta, filled) =
    Inl (if kind err = WouldBlock \<or> is_transient err \<or> filled > 0 then FillDone else FillErr err,
         inner\<lparr>io := e\<rparr>, bufs, meta, filled)"
  using assms by (simp add: fill_step_def elem_get_def Let_def)

text \<open>Under the contract a turn that finds a buffer reads a datagram that fits it, or an error.\<close>

lemma recv_cases:
  assumes "recv_contract ops"
  obtains (error) err e where "op_try_recv_from ops cap e0 = (Inl err, e)"
  | (got) data addr e where "op_try_recv_from ops cap e0 = (Inr (data, length data, addr), e)" "length data \<le> cap"
proof -
  obtain r e where r: "op_try_recv_from ops cap e0 = (r, e)" by fastforce
  show thesis
  proof (cases r)
    case (Inl err)
    then show thesis using error r by blast
  next
    case (Inr x)
    then obtain data len addr where "r = Inr (data, len, addr)" by (cases x) auto
    then show thesis using got recv_contractD [OF assms] r by metis
  qed
qed

section \<open>Correctness of the inner loop\<close>

lemma fill_post_stop:
  assumes "fin \<noteq> FillPanic" and "\<And>err. fin = FillErr err \<Longrightarrow> filled = 0"
    and "filled \<le> length bufs" and "filled \<le> length meta" and "recv_log ops (io inner) [] e"
  shows "fill_post ops aes (inner, bufs, meta, filled) (fin, inner\<lparr>io := e\<rparr>, bufs, meta, filled)"
  using assms by (auto simp: fill_post_def intro!: exI [of _ "[]"])

lemma fill_post_lost:
  assumes got: "op_try_recv_from ops cap (io inner) = (Inr (data, length data, addr), e)"
    and ok: "admitted aes (authenticator inner) (data, addr)"
    and filled: "filled < length bufs" "filled = length meta" and len: "length buf = length (bufs ! filled)"
  shows "fill_post ops aes (inner, bufs, meta, filled)
    (FillDone, inner\<lparr>io := e, counters := add_received (length data) (counters inner)\<rparr>, bufs[filled := buf], meta, filled)"
proof -
  have "map length (bufs[filled := buf]) = map length bufs"
    using len filled by (simp add: map_update list_update_same_conv)
  moreover have "recv_log ops (io inner) [(data, addr)] e" using log_got [OF got log_nil] by simp
  ultimately show ?thesis
    using ok filled
    by (auto simp: fill_post_def log_counters_admitted intro!: exI [of _ "[(data, addr)]"])
qed

lemma fill_post_refused:
  assumes got: "op_try_recv_from ops cap (io inner) = (Inr (data, length data, addr), e)"
    and refused: "\<not> admitted aes (authenticator inner) (data, addr)"
    and filled: "filled < length bufs" and len: "length buf = length (bufs ! filled)"
    and rest: "fill_post ops aes
      (inner\<lparr>io := e, counters := add_rejected (add_received (length data) (counters inner))\<rparr>,
       bufs[filled := buf], meta, filled) out"
  shows "fill_post ops aes (inner, bufs, meta, filled) out"
proof -
  obtain fin inner' bufs' meta' filled' where out: "out = (fin, inner', bufs', meta', filled')"
    by (cases out)
  have upd: "map length (bufs[filled := buf]) = map length bufs"
    using len filled by (simp add: map_update list_update_same_conv)
  obtain log lost where log: "recv_log ops e log (io inner')"
      "authenticator inner' = authenticator inner"
      "counters inner' = log_counters aes (authenticator inner) log
         (add_rejected (add_received (length data) (counters inner)))"
      "slots bufs' meta' filled filled' @ lost = filter (admitted aes (authenticator inner)) log"
      "lost = [] \<or> length lost = 1 \<and> filled' = length meta \<and> filled' < length bufs"
    using rest by (auto simp: fill_post_def out)
  have "recv_log ops (io inner) ((data, addr) # log) (io inner')"
    using log_got [OF got log(1)] by simp
  with log refused have "\<exists>log lost. recv_log ops (io inner) log (io inner') \<and>
      authenticator inner' = authenticator inner \<and>
      counters inner' = log_counters aes (authenticator inner) log (counters inner) \<and>
      slots bufs' meta' filled filled' @ lost = filter (admitted aes (authenticator inner)) log \<and>
      (lost = [] \<or> length lost = 1 \<and> filled' = length meta \<and> filled' < length bufs)"
    by (intro exI [of _ "(data, addr) # log"] exI [of _ lost]) (simp add: log_counters_refused)
  with rest upd show ?thesis by (simp add: fill_post_def out)
qed

lemma fill_post_admitted:
  assumes got: "op_try_recv_from ops cap (io inner) = (Inr (data, length data, addr), e)"
    and ok: "admitted aes (authenticator inner) (data, addr)"
    and filled: "filled < length bufs" "filled < length meta" and len: "length buf = length (bufs ! filled)"
    and data: "take (length data) buf = data"
    and rest: "fill_post ops aes
      (inner\<lparr>io := e, counters := add_received (length data) (counters inner)\<rparr>,
       bufs[filled := buf], meta[filled := new_meta dflt addr (length data)], Suc filled) out"
  shows "fill_post ops aes (inner, bufs, meta, filled) out"
proof -
  obtain fin inner' bufs' meta' filled' where out: "out = (fin, inner', bufs', meta', filled')"
    by (cases out)
  have upd: "map length (bufs[filled := buf]) = map length bufs"
    using len filled by (simp add: map_update list_update_same_conv)
  obtain log lost where log: "recv_log ops e log (io inner')"
      "authenticator inner' = authenticator inner"
      "counters inner' = log_counters aes (authenticator inner) log
         (add_received (length data) (counters inner))"
      "slots bufs' meta' (Suc filled) filled' @ lost = filter (admitted aes (authenticator inner)) log"
      "lost = [] \<or> length lost = 1 \<and> filled' = length meta \<and> filled' < length bufs"
    using rest by (auto simp: fill_post_def out)
  have keep: "\<forall>k<Suc filled. bufs' ! k = bufs[filled := buf] ! k \<and>
      meta' ! k = meta[filled := new_meta dflt addr (length data)] ! k"
    and le: "Suc filled \<le> filled'"
    using rest by (simp_all add: fill_post_def out)
  have "slots bufs' meta' filled filled' = (data, addr) # slots bufs' meta' (Suc filled) filled'"
    using keep le filled data by (simp add: slots_Suc new_meta_def)
  moreover have "recv_log ops (io inner) ((data, addr) # log) (io inner')"
    using log_got [OF got log(1)] by simp
  ultimately have "\<exists>log lost. recv_log ops (io inner) log (io inner') \<and>
      authenticator inner' = authenticator inner \<and>
      counters inner' = log_counters aes (authenticator inner) log (counters inner) \<and>
      slots bufs' meta' filled filled' @ lost = filter (admitted aes (authenticator inner)) log \<and>
      (lost = [] \<or> length lost = 1 \<and> filled' = length meta \<and> filled' < length bufs)"
    using log ok by (intro exI [of _ "(data, addr) # log"] exI [of _ lost]) (simp add: log_counters_admitted)
  moreover have "\<forall>k<filled. bufs' ! k = bufs ! k \<and> meta' ! k = meta ! k"
    using keep by auto
  ultimately show ?thesis using rest upd by (auto simp: fill_post_def out)
qed

text \<open>
  Under the contract, one turn of the loop ends, drops a refused datagram, stores an admitted one,
  or ends on one it has no record for.
\<close>

lemma fill_step_cases:
  assumes contract: "recv_contract ops" and le: "filled \<le> length bufs" "filled \<le> length meta"
  obtains
    (stop) fin e where
      "fill_step ops aes dflt (inner, bufs, meta, filled) = Inl (fin, inner\<lparr>io := e\<rparr>, bufs, meta, filled)"
      "fin \<noteq> FillPanic" "\<And>err. fin = FillErr err \<Longrightarrow> filled = 0" "recv_log ops (io inner) [] e"
  | (refused) cap data addr e buf where
      "fill_step ops aes dflt (inner, bufs, meta, filled) = Inr
        (inner\<lparr>io := e, counters := add_rejected (add_received (length data) (counters inner))\<rparr>,
         bufs[filled := buf], meta, filled)"
      "op_try_recv_from ops cap (io inner) = (Inr (data, length data, addr), e)"
      "\<not> admitted aes (authenticator inner) (data, addr)"
      "filled < length bufs" "length buf = length (bufs ! filled)"
  | (admitted) cap data addr e buf where
      "fill_step ops aes dflt (inner, bufs, meta, filled) = Inr
        (inner\<lparr>io := e, counters := add_received (length data) (counters inner)\<rparr>,
         bufs[filled := buf], meta[filled := new_meta dflt addr (length data)], Suc filled)"
      "op_try_recv_from ops cap (io inner) = (Inr (data, length data, addr), e)"
      "admitted aes (authenticator inner) (data, addr)"
      "filled < length bufs" "length buf = length (bufs ! filled)" "take (length data) buf = data"
      "filled < length meta"
  | (lost) cap data addr e buf where
      "fill_step ops aes dflt (inner, bufs, meta, filled) = Inl
        (FillDone, inner\<lparr>io := e, counters := add_received (length data) (counters inner)\<rparr>,
         bufs[filled := buf], meta, filled)"
      "op_try_recv_from ops cap (io inner) = (Inr (data, length data, addr), e)"
      "admitted aes (authenticator inner) (data, addr)"
      "filled < length bufs" "filled = length meta" "length buf = length (bufs ! filled)"
proof (cases "filled < length bufs")
  case False
  then show thesis
    using stop [of FillDone "io inner"] by (simp add: fill_step_def elem_get_def log_nil)
next
  case True
  from contract show thesis
  proof (cases rule: recv_cases [where cap = "length (bufs ! filled)" and ?e0.0 = "io inner"])
    case (error err e)
    then have "recv_log ops (io inner) [] e" by (auto intro: log_error log_nil)
    then show thesis
      by (rule stop [rotated 3]) (auto simp: fill_step_failed [OF True error] split: if_splits)
  next
    case (got data addr e)
    note turn = fill_step_got [OF True got(2,1), of aes dflt meta, unfolded Let_def]
    show thesis
    proof (cases "admitted aes (authenticator inner) (data, addr)")
      case ok: True
      show thesis
      proof (cases "filled < length meta")
        case room: True
        show thesis
          by (rule admitted [OF _ got(1) ok True, of "overwrite (bufs ! filled) data"])
            (use turn ok room overwrite_take [OF got(2)] in simp_all)
      next
        case full: False
        show thesis
          by (rule lost [OF _ got(1) ok True, of "overwrite (bufs ! filled) data"])
            (use turn ok full le in simp_all)
      qed
    next
      case bad: False
      show thesis
        by (rule refused [OF _ got(1) bad True, of "overwrite (bufs ! filled) data"])
          (use turn bad in simp_all)
    qed
  qed
qed

lemma fill_bufs_post:
  assumes contract: "recv_contract ops"
    and ret: "fill_bufs ops aes dflt (inner, bufs, meta, filled) = Some out"
    and le: "filled \<le> length bufs" "filled \<le> length meta"
  shows "fill_post ops aes (inner, bufs, meta, filled) out"
proof -
  let ?ok = "\<lambda>(inner, bufs, meta, filled). filled \<le> length bufs \<and> filled \<le> length meta"
  have "?ok (inner, bufs, meta, filled)" using le by simp
  with ret [unfolded fill_bufs_def] show ?thesis
  proof (induction rule: iterate_rule)
    case (stop st out)
    obtain inner bufs meta filled where st: "st = (inner, bufs, meta, filled)" by (cases st)
    with stop have le: "filled \<le> length bufs" "filled \<le> length meta" by auto
    from contract le show ?case
      by (cases rule: fill_step_cases [where aes = aes and dflt = dflt and inner = inner])
        (use stop st le in \<open>auto intro: fill_post_stop fill_post_lost\<close>)
  next
    case (again st st')
    obtain inner bufs meta filled where st: "st = (inner, bufs, meta, filled)" by (cases st)
    with again have le: "filled \<le> length bufs" "filled \<le> length meta" by auto
    from contract le show ?case
    proof (cases rule: fill_step_cases [where aes = aes and dflt = dflt and inner = inner])
      case stop
      with again st show ?thesis by simp
    next
      case lost
      with again st show ?thesis by simp
    next
      case (refused cap data addr e buf)
      with again st le show ?thesis by (auto intro: fill_post_refused [OF refused(2-5)])
    next
      case (admitted cap data addr e buf)
      with again st le show ?thesis
        by (auto intro: fill_post_admitted [where dflt = dflt, OF admitted(2-4,7,5,6)])
    qed
  qed
qed

section \<open>Correctness of the outer loop\<close>

text \<open>
  The frame every turn of the outer loop keeps: the shared state moved along a log, the
  counters by what the log says, and the buffers kept their sizes.
\<close>

definition recv_link ::
  "('e, 'f) udp_ops \<Rightarrow> block_cipher \<Rightarrow> ('e, 'm) recv_state \<Rightarrow> (bytes \<times> SocketAddr) list \<Rightarrow>
     ('e, 'm) recv_state \<Rightarrow> bool" where
  "recv_link ops aes st log st' =
     (case (st, st') of ((inner, bufs, meta), (inner', bufs', meta')) \<Rightarrow>
        recv_log ops (io inner) log (io inner') \<and>
        authenticator inner' = authenticator inner \<and>
        counters inner' = log_counters aes (authenticator inner) log (counters inner) \<and>
        map length bufs' = map length bufs \<and> length meta' = length meta)"

text \<open>
  What \<open>poll_recv\<close> hands to Quinn of a log, and what it loses. On \<open>Ready(Ok(n))\<close> the first \<open>n\<close> slots
  hold the admitted datagrams of the log, in order, except for at most one that arrived after the
  last metadata record was used up while there were buffers left. Otherwise no datagram of the log
  was admitted, unless there is no metadata record at all and every admitted datagram is lost.
\<close>

fun recv_delivers ::
  "block_cipher \<Rightarrow> Authenticator option \<Rightarrow> (bytes \<times> SocketAddr) list \<Rightarrow> (bytes \<times> SocketAddr) list \<Rightarrow> recv_out \<Rightarrow>
     bytes list \<Rightarrow> 'm RecvMeta_scheme list \<Rightarrow> bool" where
  "recv_delivers aes auth log lost RecvPanic bufs meta \<longleftrightarrow> False"
| "recv_delivers aes auth log lost (RecvPoll (Ready (Inr n))) bufs meta \<longleftrightarrow>
     0 < n \<and> n \<le> length bufs \<and> n \<le> length meta \<and>
     slots bufs meta 0 n @ lost = filter (admitted aes auth) log \<and>
     (lost = [] \<or> length lost = 1 \<and> n = length meta \<and> n < length bufs)"
| "recv_delivers aes auth log lost (RecvPoll _) bufs meta \<longleftrightarrow>
     lost = filter (admitted aes auth) log \<and> (lost = [] \<or> meta = [] \<and> bufs \<noteq> [])"

lemma recv_delivers_none_lost:
  "recv_delivers aes auth log lost res bufs meta \<Longrightarrow> length bufs \<le> length meta \<Longrightarrow> lost = []"
  by (cases "(aes, auth, log, lost, res, bufs, meta)" rule: recv_delivers.cases) auto

definition recv_post ::
  "('e, 'f) udp_ops \<Rightarrow> block_cipher \<Rightarrow> ('e, 'm) recv_state \<Rightarrow> recv_out \<Rightarrow> ('e, 'm) recv_state \<Rightarrow>
     bool" where
  "recv_post ops aes st res st' \<longleftrightarrow>
     (\<exists>log lost. recv_link ops aes st log st' \<and>
        recv_delivers aes (authenticator (fst st)) log lost res (fst (snd st')) (snd (snd st')))"

lemma recv_postI:
  "recv_link ops aes st log (i, b, m) \<Longrightarrow>
     recv_delivers aes (authenticator (fst st)) log lost res b m \<Longrightarrow> recv_post ops aes st res (i, b, m)"
  by (auto simp: recv_post_def)

lemma recv_link_trans:
  assumes "recv_link ops aes st1 log1 st2" and "recv_link ops aes st2 log2 st3"
  shows "recv_link ops aes st1 (log1 @ log2) st3"
  using assms recv_log_append [of ops "io (fst st1)" log1 "io (fst st2)" log2 "io (fst st3)"]
  by (auto simp: recv_link_def log_counters_append split: prod.splits)

lemma recv_link_ready:
  "op_poll_recv_ready ops (io inner) = (r, e) \<Longrightarrow> recv_link ops aes (inner\<lparr>io := e\<rparr>, bufs, meta) log st' \<Longrightarrow>
     recv_link ops aes (inner, bufs, meta) log st'"
  by (auto simp: recv_link_def intro: log_ready split: prod.splits)

lemma recv_link_refl: "recv_link ops aes st [] st"
  by (auto simp: recv_link_def intro: log_nil split: prod.splits)

lemma recv_link_lengths:
  "recv_link ops aes (inner, bufs, meta) log (inner', bufs', meta') \<Longrightarrow>
     length bufs' = length bufs \<and> length meta' = length meta \<and> authenticator inner' = authenticator inner"
  by (auto simp: recv_link_def dest: map_eq_imp_length_eq)

lemma fill_post_link:
  assumes "fill_post ops aes (inner, bufs, meta, 0) (fin, inner', bufs', meta', filled')"
  obtains log lost where "recv_link ops aes (inner, bufs, meta) log (inner', bufs', meta')"
    "slots bufs' meta' 0 filled' @ lost = filter (admitted aes (authenticator inner)) log"
    "lost = [] \<or> length lost = 1 \<and> filled' = length meta' \<and> filled' < length bufs'"
    "filled' \<le> length bufs'" "filled' \<le> length meta'" "fin \<noteq> FillPanic" "\<forall>err. fin = FillErr err \<longrightarrow> filled' = 0"
proof -
  have "length bufs' = length bufs"
    using assms by (auto simp: fill_post_def dest: map_eq_imp_length_eq)
  with assms that show thesis
    by (auto simp: fill_post_def recv_link_def)
qed

text \<open>A turn of the outer loop that goes on has admitted nothing, or had no record to put it in.\<close>

lemma poll_recv_step_post:
  assumes contract: "recv_contract ops"
    and step: "poll_recv_step ops aes dflt (inner, bufs, meta) = Some r"
  shows "case r of
     Inl (res, st') \<Rightarrow> recv_post ops aes (inner, bufs, meta) res st'
   | Inr st' \<Rightarrow> (\<exists>log. recv_link ops aes (inner, bufs, meta) log st' \<and>
       (filter (admitted aes (authenticator inner)) log = [] \<or> meta = [] \<and> bufs \<noteq> []))"
proof -
  obtain p e where p: "op_poll_recv_ready ops (io inner) = (p, e)"
    by (cases "op_poll_recv_ready ops (io inner)")
  note link = recv_link_ready [OF p, where aes = aes and bufs = bufs and meta = meta]
  show ?thesis
  proof (cases p rule: poll_result_cases)
    case pending
    then show ?thesis
      using step p link recv_link_refl by (fastforce simp: poll_recv_step_def recv_post_def)
  next
    case failed
    then show ?thesis
      using step p link recv_link_refl by (fastforce simp: poll_recv_step_def recv_post_def)
  next
    case ready
    then obtain fin inner1 bufs1 meta1 filled
      where fill: "fill_bufs ops aes dflt (inner\<lparr>io := e\<rparr>, bufs, meta, 0) =
          Some (fin, inner1, bufs1, meta1, filled)"
        and r: "r = (case fin of FillPanic \<Rightarrow> Inl (RecvPanic, inner1, bufs1, meta1)
          | FillErr err \<Rightarrow> Inl (RecvPoll (Ready (Err err)), inner1, bufs1, meta1)
          | FillDone \<Rightarrow> if filled > 0 then Inl (RecvPoll (Ready (Ok filled)), inner1, bufs1, meta1)
              else Inr (inner1, bufs1, meta1))"
      using step p by (auto simp: poll_recv_step_def bind_eq_Some_conv)
    from fill_post_link [OF fill_bufs_post [OF contract fill le0 le0]]
    obtain log lost where "recv_link ops aes (inner\<lparr>io := e\<rparr>, bufs, meta) log (inner1, bufs1, meta1)"
        "slots bufs1 meta1 0 filled @ lost = filter (admitted aes (authenticator (inner\<lparr>io := e\<rparr>))) log"
        "lost = [] \<or> length lost = 1 \<and> filled = length meta1 \<and> filled < length bufs1"
      and fin: "filled \<le> length bufs1" "filled \<le> length meta1" "fin \<noteq> FillPanic"
        "\<forall>err. fin = FillErr err \<longrightarrow> filled = 0"
      by metis
    then have log: "recv_link ops aes (inner, bufs, meta) log (inner1, bufs1, meta1)"
        "slots bufs1 meta1 0 filled @ lost = filter (admitted aes (authenticator inner)) log"
        "lost = [] \<or> length lost = 1 \<and> filled = length meta1 \<and> filled < length bufs1"
      by (simp_all add: link)
    show ?thesis
      using log fin recv_link_lengths [OF log(1)]
      by (cases fin) (auto simp: r intro!: recv_postI [OF log(1), of lost] exI [of _ log] log(1))
  qed
qed

lemma recv_post_prepend:
  assumes link: "recv_link ops aes (i, b, m) log (i1, b1, m1)"
    and none: "filter (admitted aes (authenticator i)) log = [] \<or> m = [] \<and> b \<noteq> []"
    and post: "recv_post ops aes (i1, b1, m1) res st2"
  shows "recv_post ops aes (i, b, m) res st2"
proof -
  obtain i2 b2 m2 where st2: "st2 = (i2, b2, m2)" by (cases st2)
  obtain log2 lost2 where l2: "recv_link ops aes (i1, b1, m1) log2 (i2, b2, m2)"
    and d: "recv_delivers aes (authenticator i1) log2 lost2 res b2 m2"
    using post by (auto simp: recv_post_def st2)
  let ?lost = "filter (admitted aes (authenticator i)) log @ lost2"
  have len: "length b2 = length b" "length m2 = length m" "authenticator i1 = authenticator i"
    using recv_link_lengths [OF link] recv_link_lengths [OF l2] by simp_all
  have "recv_delivers aes (authenticator i) (log @ log2) ?lost res b2 m2"
    using d none len
    by (cases "(aes, authenticator i, log @ log2, ?lost, res, b2, m2)" rule: recv_delivers.cases) auto
  then show ?thesis using recv_link_trans [OF link l2] by (auto simp: recv_post_def st2)
qed

lemma poll_recv_post:
  assumes contract: "recv_contract ops" and ret: "poll_recv ops aes dflt st = Some out"
  shows "recv_post ops aes st (fst out) (snd out)"
  using ret [unfolded poll_recv_def] TrueI
proof (induction rule: iterate_rule [where invar = "\<lambda>_. True"])
  case (stop st out)
  then show ?case
    using poll_recv_step_post [OF contract, of aes dflt "fst st" "fst (snd st)" "snd (snd st)"]
    by (cases st; cases out) auto
next
  case (again st st1)
  obtain i b m i1 b1 m1 where st: "st = (i, b, m)" "st1 = (i1, b1, m1)" by (cases st; cases st1)
  then obtain log where "recv_link ops aes (i, b, m) log (i1, b1, m1)"
      "filter (admitted aes (authenticator i)) log = [] \<or> m = [] \<and> b \<noteq> []"
    using again poll_recv_step_post [OF contract, of aes dflt i b m] by fastforce
  then show ?case
    using again st recv_post_prepend by blast
qed

section \<open>When the loops return\<close>

text \<open>
  A bound on the work the system holds for one poll: \<open>pend\<close> counts the queued datagrams
  and errors, plus one while the readiness flag is set. Each receive call uses some of it up;
  with nothing left the call reports \<open>WouldBlock\<close> and the socket is not ready.
\<close>

definition finite_backlog :: "('e, 'f) udp_ops \<Rightarrow> ('e \<Rightarrow> nat) \<Rightarrow> bool" where
  "finite_backlog ops pend \<longleftrightarrow>
     (\<forall>e r e'. op_poll_recv_ready ops e = (r, e') \<longrightarrow>
        pend e' \<le> pend e \<and> (r = Ready (Ok ()) \<longrightarrow> 0 < pend e')) \<and>
     (\<forall>cap e r e'. op_try_recv_from ops cap e = (r, e') \<longrightarrow>
        (if pend e = 0 then pend e' = 0 \<and> (\<exists>err. r = Inl err \<and> kind err = WouldBlock)
         else pend e' < pend e))"

lemma finite_backlog_ready:
  "finite_backlog ops pend \<Longrightarrow> op_poll_recv_ready ops e = (r, e') \<Longrightarrow>
     pend e' \<le> pend e \<and> (r = Ready (Ok ()) \<longrightarrow> 0 < pend e')"
  unfolding finite_backlog_def by blast

lemma finite_backlog_recv:
  "finite_backlog ops pend \<Longrightarrow> op_try_recv_from ops cap e = (r, e') \<Longrightarrow>
     pend e' \<le> pend e \<and> (0 < pend e \<longrightarrow> pend e' < pend e) \<and> (\<forall>x. r = Inr x \<longrightarrow> 0 < pend e)"
  unfolding finite_backlog_def by (metis Inl_Inr_False le_zero_eq less_or_eq_imp_le not_gr_zero)

lemma fill_step_env:
  "filled < length bufs \<Longrightarrow> op_try_recv_from ops (length (bufs ! filled)) (io inner) = (r, e) \<Longrightarrow>
     (case fill_step ops aes dflt (inner, bufs, meta, filled) of
        Inl (fin, inner', bufs', meta', filled') \<Rightarrow> io inner' = e
      | Inr (inner', bufs', meta', filled') \<Rightarrow> io inner' = e \<and> (\<exists>x. r = Inr x))"
  by (auto simp: fill_step_def elem_get_def Let_def split: sum.split option.split)

lemma fill_step_pend:
  assumes fin: "finite_backlog ops pend"
  shows "case fill_step ops aes dflt (i, b, m, f) of
      Inl (fin, i', b', m', f') \<Rightarrow> pend (io i') \<le> pend (io i) \<and>
        (f < length b \<longrightarrow> 0 < pend (io i) \<longrightarrow> pend (io i') < pend (io i))
    | Inr (i', b', m', f') \<Rightarrow> pend (io i') < pend (io i)"
proof (cases "f < length b")
  case False
  then show ?thesis by (simp add: fill_step_def elem_get_def)
next
  case True
  obtain r e where r: "op_try_recv_from ops (length (b ! f)) (io i) = (r, e)"
    by (cases "op_try_recv_from ops (length (b ! f)) (io i)")
  show ?thesis
    using fill_step_env [OF True r, of aes dflt m] finite_backlog_recv [OF fin r]
    by (auto split: sum.splits)
qed

lemma fill_bufs_pend:
  assumes fin: "finite_backlog ops pend"
    and ret: "fill_bufs ops aes dflt (i, b, m, f) = Some (fin, i', b', m', f')"
  shows "pend (io i') \<le> pend (io i) \<and>
    (f < length b \<longrightarrow> 0 < pend (io i) \<longrightarrow> pend (io i') < pend (io i))"
proof -
  let ?Q = "\<lambda>st out. case (st, out) of ((i, b, m, f), (fin, i', b', m', f')) \<Rightarrow>
    pend (io i') \<le> pend (io i) \<and> (f < length b \<longrightarrow> 0 < pend (io i) \<longrightarrow> pend (io i') < pend (io i))"
  have "?Q (i, b, m, f) (fin, i', b', m', f')"
    using ret [unfolded fill_bufs_def] TrueI
  proof (induction rule: iterate_rule [where invar = "\<lambda>_. True"])
    case (stop st out)
    obtain i b m f where "st = (i, b, m, f)" by (cases st)
    with stop fill_step_pend [OF fin, where aes = aes and dflt = dflt and i = i and b = b and m = m and f = f] show ?case by auto
  next
    case (again st st')
    obtain i b m f where "st = (i, b, m, f)" by (cases st)
    with again fill_step_pend [OF fin, where aes = aes and dflt = dflt and i = i and b = b and m = m and f = f] show ?case by fastforce
  qed
  then show ?thesis by simp
qed

lemma fill_bufs_returns:
  assumes fin: "finite_backlog ops pend"
  shows "\<exists>out. fill_bufs ops aes dflt st = Some out"
  unfolding fill_bufs_def
proof (rule iterate_returns [where invar = "\<lambda>_. True" and m = "\<lambda>st. pend (io (fst st))"])
  fix st :: "('a, 'c) fill_state"
  obtain i b m f where st: "st = (i, b, m, f)" by (cases st)
  show "\<exists>r. Some (fill_step ops aes dflt st) = Some r \<and>
      (\<forall>s'. r = Inr s' \<longrightarrow> True \<and> pend (io (fst s')) < pend (io (fst st)))"
    using fill_step_pend [OF fin, where aes = aes and dflt = dflt and i = i and b = b and m = m and f = f] by (auto simp: st)
qed simp

lemma poll_recv_returns:
  assumes fin: "finite_backlog ops pend" and "bufs \<noteq> []" and contract: "recv_contract ops"
  shows "\<exists>out. poll_recv ops aes dflt (inner, bufs, meta) = Some out"
  unfolding poll_recv_def
proof (rule iterate_returns [where m = "\<lambda>st. pend (io (fst st))" and invar = "\<lambda>st. fst (snd st) \<noteq> []"])
  fix st :: "('a, 'c) recv_state"
  obtain i b m where st: "st = (i, b, m)" by (cases st)
  assume "fst (snd st) \<noteq> []"
  then have b: "b \<noteq> []" by (simp add: st)
  obtain p e where p: "op_poll_recv_ready ops (io i) = (p, e)"
    by (cases "op_poll_recv_ready ops (io i)")
  have "\<exists>r. poll_recv_step ops aes dflt st = Some r \<and>
      (\<forall>s'. r = Inr s' \<longrightarrow> fst (snd s') \<noteq> [] \<and> pend (io (fst s')) < pend (io i))"
  proof (cases p rule: poll_result_cases)
    case (ready x)
    obtain fin' i1 b1 m1 f
      where fill: "fill_bufs ops aes dflt (i\<lparr>io := e\<rparr>, b, m, 0) = Some (fin', i1, b1, m1, f)"
      using fill_bufs_returns [OF fin] by (metis prod_cases5)
    have "pend (io i1) < pend (io i)"
      using fill_bufs_pend [OF fin fill] finite_backlog_ready [OF fin p] ready b by auto
    moreover have "length b1 = length b"
      using fill_bufs_post [OF contract fill] by (auto simp: fill_post_def dest: map_eq_imp_length_eq)
    ultimately show ?thesis
      using p ready fill b
      by (cases "b1 = []") (auto simp: poll_recv_step_def st split: fill_end.splits)
  qed (use p in \<open>simp_all add: poll_recv_step_def st\<close>)
  then show "\<exists>r. poll_recv_step ops aes dflt st = Some r \<and> (\<forall>s'. r = Inr s' \<longrightarrow>
      fst (snd s') \<noteq> [] \<and> pend (io (fst s')) < pend (io (fst st)))"
    by (simp add: st)
qed (use assms in simp)

section \<open>An example environment\<close>

text \<open>A socket over a finite queue of datagrams and a readiness flag, for the witnesses.\<close>

type_synonym queue_env = "(bytes \<times> SocketAddr) list \<times> bool"

fun queue_recv :: "nat \<Rightarrow> queue_env \<Rightarrow> (io_error + bytes \<times> nat \<times> SocketAddr) \<times> queue_env" where
  "queue_recv cap ((data, addr) # q, True) =
     (Inr (take cap data, min cap (length data), addr), (q, True))"
| "queue_recv cap (q, ready) = (Inl \<lparr>kind = WouldBlock\<rparr>, (q, False))"

definition queue_ops :: "(queue_env, unit) udp_ops" where
  "queue_ops = \<lparr>
     op_local_addr = \<lambda>e. Ok \<lparr>ip = V4 LOCALHOST, port = 4433\<rparr>,
     op_poll_recv_ready = \<lambda>e. (if snd e then Ready (Ok ()) else Pending, e),
     op_try_recv_from = queue_recv,
     op_try_send_to = \<lambda>bs addr e. (Ok (length bs), e),
     op_writable = (),
     op_poll_writable = \<lambda>f e. (Ready (Ok ()), f, e)\<rparr>"

definition queue_pend :: "queue_env \<Rightarrow> nat" where
  "queue_pend e = (if snd e then Suc (length (fst e)) else 0)"

lemma queue_contract: "recv_contract queue_ops"
  unfolding recv_contract_def queue_ops_def
  by (auto elim!: queue_recv.elims)

lemma queue_backlog: "finite_backlog queue_ops queue_pend"
  unfolding finite_backlog_def queue_ops_def queue_pend_def
  by (auto elim!: queue_recv.elims split: if_splits)

definition ex_peer :: SocketAddr where
  "ex_peer = \<lparr>ip = V4 (Ipv4Addr 10 0 0 1), port = 4433\<rparr>"

definition ex_meta :: RecvMeta where
  "ex_meta = \<lparr>meta_addr = ex_peer, meta_len = 0, meta_stride = 0\<rparr>"

text \<open>
  A server socket with three datagrams queued, under a cipher that encrypts everything to
  zeros: garbage, a datagram with a valid token, and one with a token of the other direction.
\<close>

definition zero_aes :: block_cipher where
  "zero_aes k m = replicate 16 0"

definition ex_inner :: "queue_env Inner" where
  "ex_inner = \<lparr>io = ([([64, 9, 9], ex_peer),
       (short_header 64 ([0, 1] @ replicate 18 0) [7], ex_peer),
       (short_header 64 ([0, 2] @ replicate 18 0) [7], ex_peer)], True),
     authenticator = Some (Authenticator_new ClientToServer LOCALHOST),
     counters = Counters_default\<rparr>"

definition ex_bufs :: "bytes list" where
  "ex_bufs = replicate 2 (replicate 24 0)"

lemma ex_poll_recv:
  "poll_recv queue_ops zero_aes ex_meta (ex_inner, ex_bufs, [ex_meta, ex_meta]) = Some
     (RecvPoll (Ready (Ok 1)),
      ex_inner\<lparr>io := ([], False), counters := Counters_default\<lparr>ctr_received := 3,
        ctr_received_bytes := 47, ctr_rejected := 2\<rparr>\<rparr>,
      [[64, 0, 1] @ replicate 18 0 @ [7, 0, 0], [64, 0, 2] @ replicate 18 0 @ [7, 0, 0]],
      [ex_meta\<lparr>meta_len := 22, meta_stride := 22\<rparr>, ex_meta])"
  by code_simp

section \<open>Floods\<close>

text \<open>
  An environment that always has another refused datagram ready. The inner loop has no exit
  for it: a refused datagram leaves \<open>filled\<close> alone.
\<close>

definition flooded :: "('e, 'f) udp_ops \<Rightarrow> block_cipher \<Rightarrow> Authenticator option \<Rightarrow> bool" where
  "flooded ops aes auth \<longleftrightarrow>
     (\<forall>cap e. \<exists>data addr e'. op_try_recv_from ops cap e = (Inr (data, length data, addr), e') \<and>
        length data \<le> cap \<and> \<not> admitted aes auth (data, addr))"

lemma flooded_step:
  assumes "flooded ops aes (authenticator inner)" and "filled < length bufs"
  obtains inner' bufs' where
    "fill_step ops aes dflt (inner, bufs, meta, filled) = Inr (inner', bufs', meta, filled)"
    "authenticator inner' = authenticator inner" "length bufs' = length bufs"
proof -
  obtain data addr e where got:
      "op_try_recv_from ops (length (bufs ! filled)) (io inner) = (Inr (data, length data, addr), e)"
    and len: "length data \<le> length (bufs ! filled)"
    and bad: "\<not> admitted aes (authenticator inner) (data, addr)"
    using assms(1) unfolding flooded_def by blast
  have "fill_step ops aes dflt (inner, bufs, meta, filled) =
      Inr (inner\<lparr>io := e, counters := add_rejected (add_received (length data) (counters inner))\<rparr>,
           bufs[filled := overwrite (bufs ! filled) data], meta, filled)"
    using bad by (simp add: fill_step_got [OF assms(2) len got])
  then show thesis by (rule that) simp_all
qed

lemma flooded_fill_bufs:
  assumes "flooded ops aes (authenticator inner)" and "filled < length bufs"
  shows "fill_bufs ops aes dflt (inner, bufs, meta, filled) = None"
  unfolding fill_bufs_def
proof (rule iterate_diverges [where invar = "\<lambda>(i, b, m, f). flooded ops aes (authenticator i) \<and> f < length b"])
  fix st :: "('a, 'c) fill_state"
  assume inv: "case st of (i, b, m, f) \<Rightarrow> flooded ops aes (authenticator i) \<and> f < length b"
  obtain i b m f where st: "st = (i, b, m, f)" by (cases st)
  then have "flooded ops aes (authenticator i)" "f < length b" using inv by auto
  then obtain i' b' where "fill_step ops aes dflt (i, b, m, f) = Inr (i', b', m, f)"
      "authenticator i' = authenticator i" "length b' = length b"
    by (rule flooded_step)
  then show "\<exists>s'. Some (fill_step ops aes dflt st) = Some (Inr s') \<and>
      (case s' of (i, b, m, f) \<Rightarrow> flooded ops aes (authenticator i) \<and> f < length b)"
    using inv st by simp
qed (use assms in simp)

section \<open>Properties\<close>

fun delivered_count :: "recv_out \<Rightarrow> nat" where
  "delivered_count (RecvPoll (Ready (Inr n))) = n"
| "delivered_count _ = 0"

lemma recv_delivers_length:
  "recv_delivers aes auth log lost res bufs meta \<Longrightarrow>
     length (filter (admitted aes auth) log) = delivered_count res + length lost"
  by (cases "(aes, auth, log, lost, res, bufs, meta)" rule: recv_delivers.cases)
    (auto simp: slots_def dest: arg_cong [where f = length])

lemma recv_delivers_lost:
  assumes "recv_delivers aes auth log lost res bufs meta"
  shows "(meta \<noteq> [] \<longrightarrow> length lost \<le> 1) \<and>
    (lost \<noteq> [] \<longrightarrow> delivered_count res = length meta \<and> length meta < length bufs)"
  using assms
  by (cases "(aes, auth, log, lost, res, bufs, meta)" rule: recv_delivers.cases) auto

lemma recv_link_growth:
  assumes "recv_link ops aes (inner, bufs, meta) log (inner', bufs', meta')"
    and "recv_delivers aes (authenticator inner) log lost res bufs' meta'"
  shows "received (counts inner') - received (counts inner) =
    rejected (counts inner') - rejected (counts inner) + of_nat (delivered_count res + length lost)"
proof -
  have "length log = length (filter (Not \<circ> admitted aes (authenticator inner)) log) +
      (delivered_count res + length lost)"
    using sum_length_filter_compl [of "admitted aes (authenticator inner)" log]
      recv_delivers_length [OF assms(2)] by (simp add: comp_def)
  then show ?thesis
    using assms(1) by (simp add: recv_link_def counts_def log_counters_def)
qed

text \<open>C2: With buffers to fill and a finite backlog, \<open>poll_recv\<close> returns without panicking, for
  any number of metadata records. The datagrams it read form a log, and the counters moved by
  exactly what the log says. On \<open>Ready(Ok(n))\<close> the first \<open>n\<close> slots hold the datagrams of the
  log that carry a valid token for their source address, in the order they were read; the one
  exception is a last such datagram that is lost when the metadata records were used up before
  the buffers. On any other outcome no datagram of the log carried one, except that with no
  metadata record at all every one that did is lost. When there are at least as many metadata
  records as buffers, nothing is lost.\<close>

theorem poll_recv_delivers_exactly_the_admitted:
  assumes "recv_contract ops" and "finite_backlog ops pend" and "bufs \<noteq> []"
  shows "\<exists>res inner' bufs' meta' log lost.
    poll_recv ops aes dflt (inner, bufs, meta) = Some (res, inner', bufs', meta') \<and>
    recv_link ops aes (inner, bufs, meta) log (inner', bufs', meta') \<and>
    recv_delivers aes (authenticator inner) log lost res bufs' meta' \<and>
    (length bufs \<le> length meta \<longrightarrow> lost = [])"
proof -
  obtain res inner' bufs' meta' where
      ret: "poll_recv ops aes dflt (inner, bufs, meta) = Some (res, inner', bufs', meta')"
    using poll_recv_returns [OF assms(2,3,1)] by (metis prod_cases4)
  obtain log lost where link: "recv_link ops aes (inner, bufs, meta) log (inner', bufs', meta')"
    and d: "recv_delivers aes (authenticator inner) log lost res bufs' meta'"
    using poll_recv_post [OF assms(1) ret] by (auto simp: recv_post_def)
  moreover have "length bufs \<le> length meta \<longrightarrow> lost = []"
    using recv_link_lengths [OF link] recv_delivers_none_lost [OF d] by simp
  ultimately show ?thesis using ret by blast
qed

theorem poll_recv_delivers_exactly_the_admitted_witness:
  "\<exists>res inner' bufs' meta' log lost.
    poll_recv queue_ops zero_aes ex_meta (ex_inner, ex_bufs, [ex_meta, ex_meta]) =
      Some (res, inner', bufs', meta') \<and>
    recv_link queue_ops zero_aes (ex_inner, ex_bufs, [ex_meta, ex_meta]) log (inner', bufs', meta') \<and>
    recv_delivers zero_aes (authenticator ex_inner) log lost res bufs' meta' \<and>
    (length ex_bufs \<le> length [ex_meta, ex_meta] \<longrightarrow> lost = [])"
  by (rule poll_recv_delivers_exactly_the_admitted [OF queue_contract queue_backlog])
    (simp add: ex_bufs_def)

text \<open>C16: Over one call \<open>received\<close> grows by as much as \<open>rejected\<close> plus the number of slots
  filled plus a number of lost datagrams (in wrapping 64-bit arithmetic). Nothing is lost when
  there are at least as many metadata records as buffers, so that then every datagram read off
  the wire is either handed to Quinn or counted as rejected; in general a loss only happens after
  every metadata record is filled while there is a buffer left, and at most one datagram is
  lost unless there is no metadata record at all.\<close>

theorem received_is_delivered_plus_rejected:
  assumes "recv_contract ops"
    and "poll_recv ops aes dflt (inner, bufs, meta) = Some (res, inner', bufs', meta')"
  shows "\<exists>lost. received (counts inner') - received (counts inner) =
      rejected (counts inner') - rejected (counts inner) + of_nat (delivered_count res + lost) \<and>
    (length bufs \<le> length meta \<longrightarrow> lost = 0) \<and> (meta \<noteq> [] \<longrightarrow> lost \<le> 1) \<and>
    (0 < lost \<longrightarrow> delivered_count res = length meta \<and> length meta < length bufs)"
proof -
  obtain log lost where link: "recv_link ops aes (inner, bufs, meta) log (inner', bufs', meta')"
    and d: "recv_delivers aes (authenticator inner) log lost res bufs' meta'"
    using poll_recv_post [OF assms] by (auto simp: recv_post_def)
  have len: "length bufs' = length bufs" "length meta' = length meta"
    using recv_link_lengths [OF link] by simp_all
  show ?thesis
    using recv_link_growth [OF link d] recv_delivers_none_lost [OF d] recv_delivers_lost [OF d] len
    by (intro exI [of _ "length lost"]) auto
qed

theorem received_is_delivered_plus_rejected_witness:
  "\<exists>res inner' bufs' meta' lost.
     poll_recv queue_ops zero_aes ex_meta (ex_inner, ex_bufs, [ex_meta, ex_meta]) =
       Some (res, inner', bufs', meta') \<and>
     res = RecvPoll (Ready (Ok 1)) \<and> rejected (counts inner') = 2 \<and> lost = 0 \<and>
     received (counts inner') - received (counts ex_inner) =
       rejected (counts inner') - rejected (counts ex_inner) + of_nat (delivered_count res + lost)"
  using received_is_delivered_plus_rejected [OF queue_contract ex_poll_recv] ex_poll_recv
  by (auto simp: ex_bufs_def counts_def ex_inner_def Counters_default_def)

text \<open>With no authenticator the socket rejects nothing: \<open>rejected\<close> keeps its value.\<close>

lemma without_authenticator_nothing_is_rejected:
  assumes "recv_contract ops" and "authenticator inner = None"
    and "poll_recv ops aes dflt (inner, bufs, meta) = Some (res, inner', bufs', meta')"
  shows "rejected (counts inner') = rejected (counts inner)"
proof -
  obtain log where link: "recv_link ops aes (inner, bufs, meta) log (inner', bufs', meta')"
    using poll_recv_post [OF assms(1,3)] by (auto simp: recv_post_def)
  have "filter (Not \<circ> admitted aes None) log = []"
    by (simp add: admitted_def comp_def)
  then show ?thesis
    using link assms(2) by (simp add: recv_link_def counts_def log_counters_def)
qed

text \<open>C36: While refused datagrams keep arriving, \<open>poll_recv\<close> does not return: nothing
  bounds the number of refused datagrams one call works through.\<close>

theorem poll_recv_starves_under_flood:
  assumes "flooded ops aes (authenticator inner)" and "bufs \<noteq> []"
    and "op_poll_recv_ready ops (io inner) = (Ready (Ok ()), e)"
  shows "poll_recv ops aes dflt (inner, bufs, meta) = None"
  using assms flooded_fill_bufs [of ops aes "inner\<lparr>io := e\<rparr>" 0 bufs dflt meta]
  by (simp add: poll_recv_def iterate.simps poll_recv_step_def)

theorem poll_recv_starves_under_flood_witness:
  "poll_recv (queue_ops\<lparr>op_try_recv_from := \<lambda>cap e. (Inr ([], 0, ex_peer), e)\<rparr>) zero_aes ex_meta
     (ex_inner, ex_bufs, [ex_meta, ex_meta]) = None"
  by (rule poll_recv_starves_under_flood [where e = "io ex_inner"])
    (auto simp: flooded_def queue_ops_def ex_inner_def ex_bufs_def admitted_def carries_token_def
      destination_cid_eq elem_get_def)

end
