(* ===== verification/Socket_Types.thy ===== *)
theory Socket_Types
  imports Socket_Recv
begin

text \<open>
  The shape of what \<open>poll_recv\<close> (\<open>src/socket.rs\<close>) hands back, for every environment that keeps
  the contract of \<open>try_recv_from\<close> and every choice of buffers and metadata, also when the caller
  passes fewer metadata records than buffers: a type invariant of the two loops.
\<close>

section \<open>The invariant\<close>

text \<open>A slot Quinn may read: its length fits the buffer and its datagram was admitted.\<close>

definition slot_ok ::
  "block_cipher \<Rightarrow> Authenticator option \<Rightarrow> bytes list \<Rightarrow> 'm RecvMeta_scheme list \<Rightarrow> nat \<Rightarrow> bool" where
  "slot_ok aes auth bufs meta k \<longleftrightarrow>
     meta_len (meta ! k) \<le> length (bufs ! k) \<and> meta_stride (meta ! k) = meta_len (meta ! k) \<and>
     admitted aes auth (take (meta_len (meta ! k)) (bufs ! k), meta_addr (meta ! k))"

text \<open>
  Relative to what the caller passed: the authenticator and all sizes are the same, the first
  \<open>filled\<close> slots are readable and the metadata behind them is untouched.
\<close>

definition recv_typed ::
  "block_cipher \<Rightarrow> Authenticator option \<Rightarrow> bytes list \<Rightarrow> 'm RecvMeta_scheme list \<Rightarrow> ('e, 'm) fill_state \<Rightarrow> bool" where
  "recv_typed aes auth bufs0 meta0 st \<longleftrightarrow>
     (case st of (inner, bufs, meta, filled) \<Rightarrow>
        authenticator inner = auth \<and> map length bufs = map length bufs0 \<and> length meta = length meta0 \<and>
        filled \<le> length bufs0 \<and> filled \<le> length meta0 \<and>
        (\<forall>k < filled. slot_ok aes auth bufs meta k) \<and>
        (\<forall>k < length meta0. filled \<le> k \<longrightarrow> meta ! k = meta0 ! k))"

section \<open>The loops keep it\<close>

lemma recv_typed_buf:
  assumes "recv_typed aes auth bufs0 meta0 (inner, bufs, meta, filled)" and "length buf = length (bufs ! filled)"
    and "authenticator inner' = auth"
  shows "recv_typed aes auth bufs0 meta0 (inner', bufs[filled := buf], meta, filled)"
proof -
  have "map length (bufs[filled := buf]) = map length bufs"
    using assms(2) by (metis list_update_id map_update)
  with assms show ?thesis by (simp add: recv_typed_def slot_ok_def)
qed

lemma recv_typed_meta:
  assumes "recv_typed aes auth bufs0 meta0 (inner, bufs, meta, filled)"
    and "filled < length bufs" and "filled < length meta"
    and "len \<le> length (bufs ! filled)" and "admitted aes auth (take len (bufs ! filled), addr)"
  shows "recv_typed aes auth bufs0 meta0 (inner, bufs, meta[filled := new_meta dflt addr len], Suc filled)"
proof -
  have "length bufs = length bufs0" using assms(1) by (auto simp: recv_typed_def dest: map_eq_imp_length_eq)
  with assms show ?thesis
    by (auto simp: recv_typed_def slot_ok_def new_meta_def less_Suc_eq nth_list_update)
qed

lemma fill_step_typed:
  assumes contract: "recv_contract ops" and st: "recv_typed aes auth bufs0 meta0 (inner, bufs, meta, filled)"
  shows "case fill_step ops aes dflt (inner, bufs, meta, filled) of
      Inl (fin, st') \<Rightarrow> recv_typed aes auth bufs0 meta0 st' \<and> fin \<noteq> FillPanic
    | Inr st' \<Rightarrow> recv_typed aes auth bufs0 meta0 st'"
proof (cases "filled < length bufs")
  case False
  then show ?thesis using st by (simp add: fill_step_def elem_get_def)
next
  case True
  let ?buf = "bufs ! filled"
  have auth: "authenticator inner = auth" using st by (simp add: recv_typed_def)
  from contract show ?thesis
  proof (cases rule: recv_cases [where cap = "length ?buf" and ?e0.0 = "io inner"])
    case (error err e)
    have "recv_typed aes auth bufs0 meta0 (inner\<lparr>io := e\<rparr>, bufs, meta, filled)"
      using st by (simp add: recv_typed_def)
    then show ?thesis by (simp add: fill_step_failed [OF True error])
  next
    case (got data addr e)
    have st1: "recv_typed aes auth bufs0 meta0 (inner', bufs[filled := overwrite ?buf data], meta, filled)"
      if "authenticator inner' = auth" for inner' :: "'a Inner"
      using recv_typed_buf [OF st _ that] by simp
    have st2: "recv_typed aes auth bufs0 meta0 (inner', bufs[filled := overwrite ?buf data],
        meta[filled := new_meta dflt addr (length data)], Suc filled)"
      if "authenticator inner' = auth" "filled < length meta" "admitted aes auth (data, addr)" for inner' :: "'a Inner"
      using recv_typed_meta [OF st1 [OF that(1)], of "length data" addr dflt] that True got(2) overwrite_take [OF got(2)]
      by simp
    show ?thesis using st1 st2 auth by (simp add: fill_step_got [OF True got(2,1)] Let_def)
  qed
qed

lemma fill_bufs_typed:
  assumes contract: "recv_contract ops" and "fill_bufs ops aes dflt st = Some (fin, st')"
    and "recv_typed aes auth bufs0 meta0 st"
  shows "recv_typed aes auth bufs0 meta0 st' \<and> fin \<noteq> FillPanic"
proof -
  let ?Q = "\<lambda>(fin, st'). recv_typed aes auth bufs0 meta0 st' \<and> fin \<noteq> FillPanic"
  have "?Q (fin, st')"
    using assms(2) [unfolded fill_bufs_def] assms(3)
  proof (induction rule: iterate_rule [where Q = "\<lambda>_. ?Q"])
    case (stop st out)
    then show ?case
      using fill_step_typed [OF contract, of aes auth bufs0 meta0 "fst st" "fst (snd st)" "fst (snd (snd st))"
          "snd (snd (snd st))" dflt] by auto
  next
    case (again st st')
    then show ?case
      using fill_step_typed [OF contract, of aes auth bufs0 meta0 "fst st" "fst (snd st)" "fst (snd (snd st))"
          "snd (snd (snd st))" dflt] by auto
  qed
  then show ?thesis by simp
qed

text \<open>The number of slots a result lets Quinn read.\<close>

definition recv_result_typed ::
  "block_cipher \<Rightarrow> Authenticator option \<Rightarrow> bytes list \<Rightarrow> 'm RecvMeta_scheme list \<Rightarrow> recv_out \<Rightarrow> ('e, 'm) recv_state \<Rightarrow> bool" where
  "recv_result_typed aes auth bufs0 meta0 res st \<longleftrightarrow>
     res \<noteq> RecvPanic \<and> res \<noteq> RecvPoll (Ready (Ok 0)) \<and>
     (case st of (inner, bufs, meta) \<Rightarrow>
        (\<exists>filled. recv_typed aes auth bufs0 meta0 (inner, bufs, meta, filled) \<and>
           (\<forall>n. res = RecvPoll (Ready (Ok n)) \<longrightarrow> filled = n)))"

lemma recv_typed_restart:
  "recv_typed aes auth bufs0 meta0 (inner, bufs, meta, 0) \<Longrightarrow> recv_typed aes auth bufs0 meta0 (inner\<lparr>io := e\<rparr>, bufs, meta, 0)"
  by (simp add: recv_typed_def)

lemma poll_recv_step_typed:
  assumes contract: "recv_contract ops" and st: "recv_typed aes auth bufs0 meta0 (inner, bufs, meta, 0)"
    and step: "poll_recv_step ops aes dflt (inner, bufs, meta) = Some r"
  shows "case r of Inl (res, st') \<Rightarrow> recv_result_typed aes auth bufs0 meta0 res st'
    | Inr (inner', bufs', meta') \<Rightarrow> recv_typed aes auth bufs0 meta0 (inner', bufs', meta', 0)"
proof -
  obtain p e where p: "op_poll_recv_ready ops (io inner) = (p, e)" by fastforce
  note st0 = recv_typed_restart [OF st, of e]
  show ?thesis
  proof (cases p rule: poll_result_cases)
    case pending
    then show ?thesis using step p st0 by (auto simp: poll_recv_step_def recv_result_typed_def)
  next
    case (failed err)
    then show ?thesis using step p st0 by (auto simp: poll_recv_step_def recv_result_typed_def)
  next
    case (ready x)
    then obtain fin inner1 bufs1 meta1 filled
      where fill: "fill_bufs ops aes dflt (inner\<lparr>io := e\<rparr>, bufs, meta, 0) = Some (fin, inner1, bufs1, meta1, filled)"
        and r: "r = (case fin of FillPanic \<Rightarrow> Inl (RecvPanic, inner1, bufs1, meta1)
          | FillErr err \<Rightarrow> Inl (RecvPoll (Ready (Err err)), inner1, bufs1, meta1)
          | FillDone \<Rightarrow> if filled > 0 then Inl (RecvPoll (Ready (Ok filled)), inner1, bufs1, meta1)
              else Inr (inner1, bufs1, meta1))"
      using step p by (auto simp: poll_recv_step_def bind_eq_Some_conv)
    show ?thesis
      using fill_bufs_typed [OF contract fill st0] by (cases fin) (auto simp: r recv_result_typed_def)
  qed
qed

lemma poll_recv_typed:
  assumes contract: "recv_contract ops" and ret: "poll_recv ops aes dflt (inner, bufs, meta) = Some (res, st')"
    and "authenticator inner = auth"
  shows "recv_result_typed aes auth bufs meta res st'"
proof -
  have "recv_typed aes auth bufs meta (inner, bufs, meta, 0)" using assms(3) by (simp add: recv_typed_def)
  then have "case (inner, bufs, meta) of (i, b, m) \<Rightarrow> recv_typed aes auth bufs meta (i, b, m, 0)" by simp
  with ret [unfolded poll_recv_def] have "case (res, st') of (res, st') \<Rightarrow> recv_result_typed aes auth bufs meta res st'"
  proof (induction rule: iterate_rule [where Q = "\<lambda>_ (res, st'). recv_result_typed aes auth bufs meta res st'"])
    case (stop st out)
    then show ?case
      using poll_recv_step_typed [OF contract, of aes auth bufs meta "fst st" "fst (snd st)" "snd (snd st)" dflt "Inl out"]
      by auto
  next
    case (again st st1)
    then show ?case
      using poll_recv_step_typed [OF contract, of aes auth bufs meta "fst st" "fst (snd st)" "snd (snd st)" dflt "Inr st1"]
      by auto
  qed
  then show ?thesis by simp
qed

section \<open>Boundary inputs\<close>

text \<open>
  With fewer records than buffers an admitted datagram that finds no record is read and counted
  as received, and then neither handed over nor counted as rejected.
\<close>

lemma admitted_without_record_is_lost:
  assumes "op_try_recv_from ops (length (bufs ! filled)) (io inner) = (Inr (data, length data, addr), e)"
    and "length data \<le> length (bufs ! filled)" and "filled < length bufs" and "length meta \<le> filled"
    and "admitted aes (authenticator inner) (data, addr)"
  shows "fill_step ops aes dflt (inner, bufs, meta, filled) =
    Inl (FillDone, inner\<lparr>io := e, counters := add_received (length data) (counters inner)\<rparr>,
      bufs[filled := overwrite (bufs ! filled) data], meta, filled)"
  using assms(4,5) by (simp add: fill_step_got [OF assms(3,2,1)])

text \<open>Without buffers nothing clears the readiness, and a ready socket is polled forever.\<close>

lemma poll_recv_without_buffers_spins:
  assumes "\<And>e. \<exists>e'. op_poll_recv_ready ops e = (Ready (Ok ()), e')"
  shows "poll_recv ops aes dflt (inner, [], meta) = None"
  unfolding poll_recv_def
proof (rule iterate_diverges [where invar = "\<lambda>(i, b, m). b = []"])
  fix st :: "('a, 'c) recv_state"
  assume b: "case st of (i, b, m) \<Rightarrow> b = []"
  obtain i m where st: "st = (i, [], m)" using b by (cases st) auto
  obtain e' where "op_poll_recv_ready ops (io i) = (Ready (Ok ()), e')" using assms by blast
  then show "\<exists>s'. poll_recv_step ops aes dflt st = Some (Inr s') \<and> (case s' of (i, b, m) \<Rightarrow> b = [])"
    by (simp add: st poll_recv_step_def fill_bufs_def iterate.simps fill_step_def elem_get_def)
qed simp

section \<open>Properties\<close>

text \<open>C7: Whatever datagrams and errors the environment produces, with any buffers and metadata,
  a call of \<open>poll_recv\<close> that returns has not panicked, keeps the authenticator, the length of every
  buffer and the number of metadata records, and never reports zero datagrams. When it reports
  \<open>n\<close>, there are \<open>n\<close> buffers and records, each of the first \<open>n\<close> records names a length that fits
  its buffer, with the stride equal to it, and a datagram that carries a token for the inbound
  direction from the reported source; the records behind them are untouched.\<close>

theorem poll_recv_well_typed:
  assumes "recv_contract ops" and "authenticator inner = Some a"
    and "poll_recv ops aes dflt (inner, bufs, meta) = Some (res, inner', bufs', meta')"
  shows "res \<noteq> RecvPanic \<and> authenticator inner' = Some a \<and>
    map length bufs' = map length bufs \<and> length meta' = length meta \<and>
    (\<forall>n. res = RecvPoll (Ready (Ok n)) \<longrightarrow>
       0 < n \<and> n \<le> length bufs \<and> n \<le> length meta \<and>
       (\<forall>k < n. meta_len (meta' ! k) \<le> length (bufs' ! k) \<and> meta_stride (meta' ! k) = meta_len (meta' ! k) \<and>
          carries_token aes a (take (meta_len (meta' ! k)) (bufs' ! k)) (ip (meta_addr (meta' ! k)))) \<and>
       (\<forall>k < length meta. n \<le> k \<longrightarrow> meta' ! k = meta ! k))"
proof -
  obtain filled where "res \<noteq> RecvPanic" "res \<noteq> RecvPoll (Ready (Ok 0))"
    and "recv_typed aes (Some a) bufs meta (inner', bufs', meta', filled)"
    and "\<And>n. res = RecvPoll (Ready (Ok n)) \<Longrightarrow> filled = n"
    using poll_recv_typed [OF assms(1,3,2)] by (auto simp: recv_result_typed_def)
  then show ?thesis by (auto simp: recv_typed_def slot_ok_def admitted_def)
qed

theorem poll_recv_well_typed_witness:
  "carries_token zero_aes (Authenticator_new ClientToServer LOCALHOST)
     (short_header 64 ([0, 1] @ replicate 18 0) [7]) (V4 (Ipv4Addr 10 0 0 1))"
  using poll_recv_well_typed [OF queue_contract _ ex_poll_recv, of "Authenticator_new ClientToServer LOCALHOST"]
  by (auto simp: ex_inner_def ex_meta_def ex_peer_def short_header_def)

end
