(* ===== verification/Network.thy ===== *)
theory Network
  imports Socket_Types Auth_Cid Blaster
begin

text \<open>
  A server's endpoint on a hostile network: its connection ID generator and its clients issue
  tokens (\<open>src/auth.rs\<close>), its socket (\<open>src/socket.rs\<close>) polls an environment that produces any
  datagrams from any source addresses. A run of the system records which tokens were issued, for
  which source, and every datagram handed to QUIC together with the tokens issued before. What the
  filter lets through is compared with the table of issued tokens; the difference is exactly a
  forged tag, for a nonce and a source no token had been issued for.
\<close>

section \<open>The interface of a stamping scheme\<close>

text \<open>
  What the comparison relies on: a valid pair of a token and a source is one stamped from some
  nonce, and the nonce can be read off the token.
\<close>

locale stamping =
  fixes stamp :: "'n \<Rightarrow> 's \<Rightarrow> 't" and nonce :: "'n \<Rightarrow> bool" and nonce_of :: "'t \<Rightarrow> 'n" and valid :: "'t \<Rightarrow> 's \<Rightarrow> bool"
  assumes valid_iff: "valid t s \<longleftrightarrow> (\<exists>n. nonce n \<and> t = stamp n s)"
    and nonce_of_stamp: "nonce n \<Longrightarrow> nonce_of (stamp n s) = n"
begin

lemma valid_unique: "valid t s \<Longrightarrow> nonce (nonce_of t) \<and> t = stamp (nonce_of t) s"
  by (auto simp: valid_iff nonce_of_stamp)

text \<open>A table of honestly stamped pairs decides validity, up to nonces it has not stamped for the source.\<close>

lemma valid_table:
  assumes "\<And>s t. (s, t) \<in> set table \<Longrightarrow> valid t s"
  shows "valid t s \<longleftrightarrow>
    (s, t) \<in> set table \<or> valid t s \<and> (s, nonce_of t) \<notin> (\<lambda>(s', t'). (s', nonce_of t')) ` set table"
proof -
  have "(s, t) \<in> set table"
    if "valid t s" "(s', t') \<in> set table" "(s, nonce_of t) = (s', nonce_of t')" for s' t'
    using that valid_unique [OF that(1)] valid_unique [OF assms [OF that(2)]] by simp
  then show ?thesis using assms by fastforce
qed

lemma table_disjoint: "(s, t) \<in> set table \<Longrightarrow> (s, nonce_of t) \<in> (\<lambda>(s', t'). (s', nonce_of t')) ` set table"
  by force

end

text \<open>The nonce field of a token.\<close>

definition token_nonce :: "bytes \<Rightarrow> bytes" where
  "token_nonce t = take 8 (drop 2 t)"

interpretation stp: stamping "\<lambda>n s. token_format aes d n s r" "\<lambda>n. length n = 8" token_nonce
  "\<lambda>t s. verify aes t d s r = Some (Ok ())"
  for aes :: block_cipher and d :: Direction and r :: Ipv4Addr
  by unfold_locales (auto simp: verify_Ok_iff token_nonce_def token_format_fields)

section \<open>The system\<close>

type_synonym table = "(Ipv4Addr \<times> bytes) list"

record 'e network =
  net_inner :: "'e Inner"
  net_issued :: table
  net_delivered :: "((bytes \<times> SocketAddr) \<times> table) list"

text \<open>
  The steps at the server with address \<open>srv\<close>: its generator issues an ID for a peer or without one,
  a client of the server picks its first destination ID, and the socket is polled with any buffers.
\<close>

inductive net_step ::
  "(bytes \<Rightarrow> 'c) \<Rightarrow> ('c \<Rightarrow> bytes) \<Rightarrow> 'g rng \<Rightarrow> block_cipher \<Rightarrow> ('e, 'f) udp_ops \<Rightarrow> 'm RecvMeta_scheme \<Rightarrow> Ipv4Addr \<Rightarrow>
     'e network \<Rightarrow> 'e network \<Rightarrow> bool"
  for cid_new cid_bytes rng aes ops dflt srv where
  issue: "generate_cid_for cid_new rng aes (AuthCidGenerator_new ClientToServer srv) remote hint g = Some (cid, g') \<Longrightarrow>
    net_step cid_new cid_bytes rng aes ops dflt srv w
      (w\<lparr>net_issued := net_issued w @ [(bound_source (ip remote), cid_bytes cid)]\<rparr>)"
| issue_blind: "generate_cid cid_new rng aes (AuthCidGenerator_new ClientToServer srv) g = Some (cid, g') \<Longrightarrow>
    net_step cid_new cid_bytes rng aes ops dflt srv w
      (w\<lparr>net_issued := net_issued w @ [(UNSPECIFIED, cid_bytes cid)]\<rparr>)"
| dial: "initial_dst_cid_provider cid_new rng aes peers g = Some (cid, g') \<Longrightarrow> server peers = srv \<Longrightarrow>
    net_step cid_new cid_bytes rng aes ops dflt srv w
      (w\<lparr>net_issued := net_issued w @ [(client peers, cid_bytes cid)]\<rparr>)"
| receive: "poll_recv ops aes dflt (net_inner w, bufs, meta) = Some (res, inner', bufs', meta') \<Longrightarrow>
    net_step cid_new cid_bytes rng aes ops dflt srv w
      (w\<lparr>net_inner := inner', net_delivered := net_delivered w @
           map (\<lambda>p. (p, net_issued w)) (slots bufs' meta' 0 (delivered_count res))\<rparr>)"

definition net_init :: "'e Inner \<Rightarrow> Ipv4Addr \<Rightarrow> 'e network" where
  "net_init inner srv =
     \<lparr>net_inner = inner\<lparr>authenticator := Some (Authenticator_new ClientToServer srv)\<rparr>,
      net_issued = [], net_delivered = []\<rparr>"

text \<open>
  The AES input blocks of the issued tokens, and a token that is valid for a source although its
  block is not among them: no token had been issued for its nonce and that source. (The blocks a
  socket encrypts to verify a token are not in the table: verifying hands out no token.)
\<close>

definition issued_blocks :: "Ipv4Addr \<Rightarrow> table \<Rightarrow> bytes set" where
  "issued_blocks srv table = (\<lambda>(s, t). tag_message (token_nonce t) s srv) ` set table"

definition forged :: "block_cipher \<Rightarrow> Ipv4Addr \<Rightarrow> table \<Rightarrow> Ipv4Addr \<Rightarrow> bytes \<Rightarrow> bool" where
  "forged aes srv table s t \<longleftrightarrow>
     length t = 20 \<and> take 2 t = be_bytes 2 (selector ClientToServer) \<and>
     drop 10 t = trunc80 aes F_AB (tag_message (token_nonce t) s srv) \<and>
     tag_message (token_nonce t) s srv \<notin> issued_blocks srv table"

text \<open>The table's own verdict: the datagram carries an ID that was issued for its source.\<close>

definition issued_for :: "table \<Rightarrow> bytes \<Rightarrow> IpAddr \<Rightarrow> bool" where
  "issued_for table dg src \<longleftrightarrow>
     (case (src, destination_cid dg) of (V4 s, Some t) \<Rightarrow> (s, t) \<in> set table | _ \<Rightarrow> False)"

definition forgery :: "block_cipher \<Rightarrow> Ipv4Addr \<Rightarrow> table \<Rightarrow> bytes \<Rightarrow> IpAddr \<Rightarrow> bool" where
  "forgery aes srv table dg src \<longleftrightarrow>
     (case (src, destination_cid dg) of (V4 s, Some t) \<Rightarrow> forged aes srv table s t | _ \<Rightarrow> False)"

section \<open>Lemmas\<close>

lemma verify_Ok_fields:
  "verify aes t d s r = Some (Ok ()) \<longleftrightarrow>
     length t = 20 \<and> take 2 t = be_bytes 2 (selector d) \<and> drop 10 t = trunc80 aes (key d) (tag_message (token_nonce t) s r)"
proof
  assume "verify aes t d s r = Some (Ok ())"
  then obtain n where "length n = 8" "t = token_format aes d n s r" by (auto simp: verify_Ok_iff)
  then show "length t = 20 \<and> take 2 t = be_bytes 2 (selector d) \<and> drop 10 t = trunc80 aes (key d) (tag_message (token_nonce t) s r)"
    by (simp add: token_nonce_def token_format_fields)
next
  assume t: "length t = 20 \<and> take 2 t = be_bytes 2 (selector d) \<and> drop 10 t = trunc80 aes (key d) (tag_message (token_nonce t) s r)"
  then have "t = token_format aes d (token_nonce t) s r"
    using token_fields [of t] by (simp add: token_format_def token_nonce_def)
  with t show "verify aes t d s r = Some (Ok ())"
    by (auto simp: verify_Ok_iff token_nonce_def intro!: exI [of _ "token_nonce t"])
qed

lemma issued_blocks_iff:
  assumes "length t = 20" and "\<And>s' t'. (s', t') \<in> set table \<Longrightarrow> length t' = 20"
  shows "tag_message (token_nonce t) s srv \<in> issued_blocks srv table \<longleftrightarrow>
    (s, token_nonce t) \<in> (\<lambda>(s', t'). (s', token_nonce t')) ` set table"
  using assms by (force simp: issued_blocks_def token_nonce_def tag_message_inject)

lemma valid_table_forged:
  assumes "\<And>s t. (s, t) \<in> set table \<Longrightarrow> verify aes t ClientToServer s srv = Some (Ok ())"
  shows "verify aes t ClientToServer s srv = Some (Ok ()) \<longleftrightarrow> (s, t) \<in> set table \<or> forged aes srv table s t"
    and "\<not> ((s, t) \<in> set table \<and> forged aes srv table s t)"
proof -
  have len: "length t' = 20" if "(s', t') \<in> set table" for s' t'
    using assms [OF that] tok.accepted_length by blast
  have "forged aes srv table s t \<longleftrightarrow> verify aes t ClientToServer s srv = Some (Ok ()) \<and>
      (s, token_nonce t) \<notin> (\<lambda>(s', t'). (s', token_nonce t')) ` set table"
    using issued_blocks_iff [of t table s srv] len by (auto simp: forged_def verify_Ok_fields)
  then show "verify aes t ClientToServer s srv = Some (Ok ()) \<longleftrightarrow> (s, t) \<in> set table \<or> forged aes srv table s t"
    and "\<not> ((s, t) \<in> set table \<and> forged aes srv table s t)"
    using stp.valid_table [of table aes ClientToServer srv t s] stp.table_disjoint [of s t table] assms by blast+
qed

lemma check_table:
  assumes "\<And>s t. (s, t) \<in> set table \<Longrightarrow> verify aes t ClientToServer s srv = Some (Ok ())"
  shows "check aes (Authenticator_new ClientToServer srv) dg src = Some (Ok ()) \<longleftrightarrow>
      issued_for table dg src \<or> forgery aes srv table dg src"
    and "\<not> (issued_for table dg src \<and> forgery aes srv table dg src)"
  using valid_table_forged [of table aes srv, OF assms]
  by (auto simp: check_def Authenticator_new_def issued_for_def forgery_def split: IpAddr.splits option.splits)

section \<open>Invariant\<close>

definition net_inv :: "block_cipher \<Rightarrow> Ipv4Addr \<Rightarrow> 'e network \<Rightarrow> bool" where
  "net_inv aes srv w \<longleftrightarrow>
     authenticator (net_inner w) = Some (Authenticator_new ClientToServer srv) \<and>
     (\<forall>(s, t) \<in> set (net_issued w). verify aes t ClientToServer s srv = Some (Ok ())) \<and>
     (\<forall>((dg, addr), table) \<in> set (net_delivered w).
        check aes (Authenticator_new ClientToServer srv) dg (ip addr) = Some (Ok ()) \<and>
        (\<exists>later. net_issued w = table @ later))"

lemma net_inv_issue:
  assumes "net_inv aes srv w" and "verify aes t ClientToServer s srv = Some (Ok ())"
  shows "net_inv aes srv (w\<lparr>net_issued := net_issued w @ [(s, t)]\<rparr>)"
  using assms by (fastforce simp: net_inv_def)

text \<open>The three ways of issuing mint the same kind of token.\<close>

lemma issued_valid:
  assumes "cid_faithful cid_new cid_bytes"
    and "map_option (\<lambda>(token, g'). (cid_new token, g')) (mint_between rng aes d s r g) = Some (cid, g')"
  shows "verify aes (cid_bytes cid) d s r = Some (Ok ())"
  using assms by (auto simp: mint_between_eq cid_faithful_def verify_token_format)

lemma net_inv_receive:
  assumes inv: "net_inv aes srv w" and contract: "recv_contract ops"
    and ret: "poll_recv ops aes dflt (net_inner w, bufs, meta) = Some (res, inner', bufs', meta')"
  shows "net_inv aes srv (w\<lparr>net_inner := inner', net_delivered := net_delivered w @
           map (\<lambda>p. (p, net_issued w)) (slots bufs' meta' 0 (delivered_count res))\<rparr>)"
proof -
  let ?a = "Authenticator_new ClientToServer srv"
  have auth: "authenticator (net_inner w) = Some ?a" using inv by (simp add: net_inv_def)
  obtain filled where typed: "recv_typed aes (Some ?a) bufs meta (inner', bufs', meta', filled)"
    and n: "\<And>n. res = RecvPoll (Ready (Ok n)) \<Longrightarrow> filled = n"
    using poll_recv_typed [OF contract ret auth] by (auto simp: recv_result_typed_def)
  have "delivered_count res \<le> filled"
    using n by (cases res rule: delivered_count.cases) auto
  then have "check aes ?a dg (ip addr) = Some (Ok ())"
    if "(dg, addr) \<in> set (slots bufs' meta' 0 (delivered_count res))" for dg addr
    using that typed by (auto simp: slots_def recv_typed_def slot_ok_def admitted_def check_Ok_iff)
  then show ?thesis using inv typed by (fastforce simp: net_inv_def recv_typed_def)
qed

lemma net_inv_step:
  assumes "net_step cid_new cid_bytes rng aes ops dflt srv w w'" and "net_inv aes srv w"
    and "cid_faithful cid_new cid_bytes" and "recv_contract ops"
  shows "net_inv aes srv w'"
  using assms(1)
proof (cases rule: net_step.cases)
  case (issue remote hint g cid g')
  have "verify aes (cid_bytes cid) ClientToServer (bound_source (ip remote)) srv = Some (Ok ())"
    by (rule issued_valid [OF assms(3), of rng aes _ _ _ g cid g'])
      (use issue(2) in \<open>simp add: generate_cid_for_eq AuthCidGenerator_new_def\<close>)
  then show ?thesis unfolding issue(1) by (rule net_inv_issue [OF assms(2)])
next
  case (issue_blind g cid g')
  have "verify aes (cid_bytes cid) ClientToServer UNSPECIFIED srv = Some (Ok ())"
    by (rule issued_valid [OF assms(3), of rng aes _ _ _ g cid g'])
      (use issue_blind(2) in \<open>simp add: generate_cid_def AuthCidGenerator_new_def\<close>)
  then show ?thesis unfolding issue_blind(1) by (rule net_inv_issue [OF assms(2)])
next
  case (dial peers g cid g')
  have "verify aes (cid_bytes cid) ClientToServer (client peers) srv = Some (Ok ())"
    by (rule issued_valid [OF assms(3), of rng aes _ _ _ g cid g'])
      (use dial(2,3) in \<open>simp add: initial_dst_cid_provider_def mint_def\<close>)
  then show ?thesis unfolding dial(1) by (rule net_inv_issue [OF assms(2)])
next
  case (receive bufs meta res inner' bufs' meta')
  then show ?thesis using net_inv_receive [OF assms(2,4)] by simp
qed

text \<open>The system on an environment and a connection ID type that keep their contracts.\<close>

interpretation net: transition_system "net_step cid_new cid_bytes rng aes ops dflt srv" "net_init inner srv"
  "\<lambda>w. cid_faithful cid_new cid_bytes \<and> recv_contract ops \<longrightarrow> net_inv aes srv w"
  for cid_new :: "bytes \<Rightarrow> 'c" and cid_bytes and rng :: "'g rng" and aes and ops :: "('e, 'f) udp_ops"
    and dflt :: "'m RecvMeta_scheme" and srv and inner
proof
  show "cid_faithful cid_new cid_bytes \<and> recv_contract ops \<longrightarrow> net_inv aes srv (net_init inner srv)"
    by (simp add: net_inv_def net_init_def)
qed (use net_inv_step in blast)

lemma net_run_inv:
  assumes "(net_step cid_new cid_bytes rng aes ops dflt srv)\<^sup>*\<^sup>* (net_init inner srv) w"
    and "cid_faithful cid_new cid_bytes" and "recv_contract ops"
  shows "net_inv aes srv w"
  using net.reachable_invar [OF assms(1)] assms(2,3) by blast

section \<open>A flood\<close>

text \<open>
  An environment that only produces packets of the blaster, of any size, seed and position, none of
  whose connection IDs happens to be a token for the packet's source.
\<close>

definition blasted :: "('e, 'f) udp_ops \<Rightarrow> block_cipher \<Rightarrow> Authenticator \<Rightarrow> bool" where
  "blasted ops aes a \<longleftrightarrow>
     (\<forall>cap e data len addr e'. op_try_recv_from ops cap e = (Inr (data, len, addr), e') \<longrightarrow>
        (\<exists>ne sz seed i s. take len data = initial_packet sz (dcid_of ne seed (3 * i)) \<and> ip addr = V4 s \<and>
           verify aes (dcid_of ne seed (3 * i)) (inbound a) s (auth_local_ip a) \<noteq> Some (Ok ())))"

lemma recv_log_all:
  assumes "recv_log ops e log e'"
    and "\<And>cap e data len addr e'. op_try_recv_from ops cap e = (Inr (data, len, addr), e') \<Longrightarrow> P (take len data, addr)"
  shows "\<forall>p \<in> set log. P p"
  using assms(1) by (induction rule: recv_log.induct) (auto dest: assms(2))

lemma blasted_refused:
  assumes "blasted ops aes a" and "op_try_recv_from ops cap e = (Inr (data, len, addr), e')"
  shows "\<not> admitted aes (Some a) (take len data, addr)"
proof -
  obtain ne sz seed i s where d: "take len data = initial_packet sz (dcid_of ne seed (3 * i))" "ip addr = V4 s"
    "verify aes (dcid_of ne seed (3 * i)) (inbound a) s (auth_local_ip a) \<noteq> Some (Ok ())"
    using assms unfolding blasted_def by blast
  then have "check aes a (take len data) (ip addr) \<noteq> Some (Ok ())"
    by (simp add: check_def destination_cid_initial_packet)
  then show ?thesis by (simp add: admitted_def check_Ok_iff)
qed

text \<open>An example: a socket that still has \<open>e\<close> copies of one packet of the blaster queued.\<close>

definition blast_ops :: "(nat, unit) udp_ops" where
  "blast_ops = \<lparr>
     op_local_addr = \<lambda>e. Ok \<lparr>ip = V4 LOCALHOST, port = 4433\<rparr>,
     op_poll_recv_ready = \<lambda>e. (if 0 < e then Ready (Ok ()) else Pending, e),
     op_try_recv_from = \<lambda>cap e. if 0 < e \<and> 1200 \<le> cap then
         (Inr (initial_packet 1200 (dcid_of LittleEndian 7 0), 1200, ex_peer), e - 1)
       else (Inl \<lparr>kind = WouldBlock\<rparr>, 0),
     op_try_send_to = \<lambda>bs addr e. (Ok (length bs), e),
     op_writable = (),
     op_poll_writable = \<lambda>f e. (Ready (Ok ()), f, e)\<rparr>"

lemma blast_ops_contract: "recv_contract blast_ops"
  by (auto simp: recv_contract_def blast_ops_def length_initial_packet split: if_splits)

lemma blast_ops_backlog: "finite_backlog blast_ops id"
  by (auto simp: finite_backlog_def blast_ops_def split: if_splits)

lemma blast_ops_blasted: "blasted blast_ops zero_aes (Authenticator_new ClientToServer LOCALHOST)"
proof -
  have "verify zero_aes (dcid_of LittleEndian 7 (3 * 0)) ClientToServer (Ipv4Addr 10 0 0 1) LOCALHOST \<noteq> Some (Ok ())"
    by code_simp
  then have "\<exists>ne sz seed i s. initial_packet 1200 (dcid_of LittleEndian 7 0) = initial_packet sz (dcid_of ne seed (3 * i)) \<and>
      ip ex_peer = V4 s \<and> verify zero_aes (dcid_of ne seed (3 * i)) ClientToServer s LOCALHOST \<noteq> Some (Ok ())"
    by - (rule exI [of _ LittleEndian], rule exI [of _ 1200], rule exI [of _ 7], rule exI [of _ 0],
        rule exI [of _ "Ipv4Addr 10 0 0 1"], simp add: ex_peer_def)
  then show ?thesis
    unfolding blasted_def
    by (auto simp: blast_ops_def Authenticator_new_def length_initial_packet split: if_splits)
qed

section \<open>An example run\<close>

text \<open>A first step: the server issues one token, to \<open>ex_peer\<close>.\<close>

definition ex_token :: bytes where
  "ex_token = [0, 1] @ replicate 18 0"

definition ex_issued :: "queue_env network" where
  "ex_issued = (net_init ex_inner LOCALHOST)\<lparr>net_issued := [(Ipv4Addr 10 0 0 1, ex_token)]\<rparr>"

lemma ex_issue_step:
  "net_step id id (\<lambda>n (g :: unit). (replicate n 0, g)) zero_aes queue_ops ex_meta LOCALHOST
     (net_init ex_inner LOCALHOST) ex_issued"
proof -
  have "generate_cid_for id (\<lambda>n g. (replicate n 0, g)) zero_aes (AuthCidGenerator_new ClientToServer LOCALHOST)
      ex_peer None () = Some (ex_token, ())"
    by code_simp
  from net_step.issue [where w = "net_init ex_inner LOCALHOST" and cid_bytes = id, OF this] show ?thesis
    by (simp add: ex_issued_def net_init_def ex_peer_def)
qed

section \<open>Properties\<close>

text \<open>C3: On a hostile network, whatever is issued and received in whatever order, a datagram
  that a server's socket hands to QUIC carries an ID that had been issued before for exactly the
  source address it came from, or else a forgery: a tag that equals the truncated AES block of its
  nonce and that source although no token had been issued for that nonce and source. Never both.\<close>

theorem delivered_was_issued_or_forged:
  assumes "(net_step cid_new cid_bytes rng aes ops dflt srv)\<^sup>*\<^sup>* (net_init inner srv) w"
    and "cid_faithful cid_new cid_bytes" and "recv_contract ops"
    and "((dg, addr), table) \<in> set (net_delivered w)"
  shows "(\<exists>later. net_issued w = table @ later) \<and>
    (issued_for table dg (ip addr) \<noteq> forgery aes srv table dg (ip addr))"
proof -
  have inv: "net_inv aes srv w" by (rule net_run_inv [OF assms(1-3)])
  then obtain later where later: "net_issued w = table @ later"
    and ok: "check aes (Authenticator_new ClientToServer srv) dg (ip addr) = Some (Ok ())"
    using assms(4) by (fastforce simp: net_inv_def)
  have "verify aes t ClientToServer s srv = Some (Ok ())" if "(s, t) \<in> set table" for s t
    using that inv later by (auto simp: net_inv_def)
  from check_table [of table aes srv dg "ip addr", OF this] ok later show ?thesis by blast
qed

theorem delivered_was_issued_or_forged_witness:
  "\<exists>dg (addr :: SocketAddr). issued_for [(Ipv4Addr 10 0 0 1, ex_token)] dg (ip addr) \<noteq>
     forgery zero_aes LOCALHOST [(Ipv4Addr 10 0 0 1, ex_token)] dg (ip addr)"
proof -
  let ?step = "net_step id id (\<lambda>n (g :: unit). (replicate n 0, g)) zero_aes queue_ops ex_meta LOCALHOST"
  have "net_inner ex_issued = ex_inner" by (simp add: ex_issued_def net_init_def ex_inner_def)
  then have ret: "poll_recv queue_ops zero_aes ex_meta (net_inner ex_issued, ex_bufs, [ex_meta, ex_meta]) = Some
     (RecvPoll (Ready (Ok 1)),
      ex_inner\<lparr>io := ([], False), counters := Counters_default\<lparr>ctr_received := 3,
        ctr_received_bytes := 47, ctr_rejected := 2\<rparr>\<rparr>,
      [[64, 0, 1] @ replicate 18 0 @ [7, 0, 0], [64, 0, 2] @ replicate 18 0 @ [7, 0, 0]],
      [ex_meta\<lparr>meta_len := 22, meta_stride := 22\<rparr>, ex_meta])"
    using ex_poll_recv by (simp only:)
  obtain w2 where s2: "?step ex_issued w2" and
    w2: "net_delivered w2 = net_delivered ex_issued @ map (\<lambda>p. (p, net_issued ex_issued))
      (slots [[64, 0, 1] @ replicate 18 0 @ [7, 0, 0], [64, 0, 2] @ replicate 18 0 @ [7, 0, 0]]
        [ex_meta\<lparr>meta_len := 22, meta_stride := 22\<rparr>, ex_meta] 0 (delivered_count (RecvPoll (Ready (Ok 1)))))"
    using net_step.receive [OF ret, of id id "\<lambda>n (g :: unit). (replicate n 0, g)" LOCALHOST] by force
  have "((take 22 ([64, 0, 1] @ replicate 18 0 @ [7, 0, 0]), ex_peer), [(Ipv4Addr 10 0 0 1, ex_token)]) \<in> set (net_delivered w2)"
    by (simp add: w2 ex_issued_def net_init_def slots_def ex_meta_def ex_peer_def)
  moreover have run: "?step\<^sup>*\<^sup>* (net_init ex_inner LOCALHOST) w2" using ex_issue_step s2 by simp
  moreover have "cid_faithful id id" by (simp add: cid_faithful_def)
  ultimately show ?thesis
    using delivered_was_issued_or_forged [OF run _ queue_contract] by blast
qed

text \<open>C11: At any time of such a run the server's filter agrees with the ideal filter that looks
  the datagram's ID up in the table of issued tokens under the datagram's source, except on
  forgeries: it passes exactly what the table passes, and the forgeries.\<close>

theorem filter_is_the_table_up_to_forgery:
  assumes "(net_step cid_new cid_bytes rng aes ops dflt srv)\<^sup>*\<^sup>* (net_init inner srv) w"
    and "cid_faithful cid_new cid_bytes" and "recv_contract ops"
    and "authenticator (net_inner w) = Some a"
  shows "(\<exists>v. check aes a dg src = Some v) \<and>
    (check aes a dg src = Some (Ok ()) \<longleftrightarrow>
       issued_for (net_issued w) dg src \<or> forgery aes srv (net_issued w) dg src)"
proof -
  have inv: "net_inv aes srv w" by (rule net_run_inv [OF assms(1-3)])
  then have a: "a = Authenticator_new ClientToServer srv" using assms(4) by (simp add: net_inv_def)
  have "verify aes t ClientToServer s srv = Some (Ok ())" if "(s, t) \<in> set (net_issued w)" for s t
    using that inv by (auto simp: net_inv_def)
  from check_table(1) [of "net_issued w" aes srv dg src, OF this] check_total show ?thesis by (simp add: a)
qed

theorem filter_is_the_table_up_to_forgery_witness:
  "check zero_aes (Authenticator_new ClientToServer LOCALHOST) (short_header 64 ex_token [7])
       (V4 (Ipv4Addr 10 0 0 1)) = Some (Ok ()) \<and>
   (\<forall>dg src. check zero_aes (Authenticator_new ClientToServer LOCALHOST) dg src = Some (Ok ()) \<longleftrightarrow>
      issued_for [(Ipv4Addr 10 0 0 1, ex_token)] dg src \<or>
      forgery zero_aes LOCALHOST [(Ipv4Addr 10 0 0 1, ex_token)] dg src)"
proof -
  have "cid_faithful id id" by (simp add: cid_faithful_def)
  moreover have "(net_step id id (\<lambda>n (g :: unit). (replicate n 0, g)) zero_aes queue_ops ex_meta LOCALHOST)\<^sup>*\<^sup>*
      (net_init ex_inner LOCALHOST) ex_issued" using ex_issue_step by simp
  moreover have "authenticator (net_inner ex_issued) = Some (Authenticator_new ClientToServer LOCALHOST)"
    by (simp add: ex_issued_def net_init_def)
  ultimately have iff: "check zero_aes (Authenticator_new ClientToServer LOCALHOST) dg src = Some (Ok ()) \<longleftrightarrow>
      issued_for (net_issued ex_issued) dg src \<or> forgery zero_aes LOCALHOST (net_issued ex_issued) dg src" for dg src
    using filter_is_the_table_up_to_forgery [OF _ _ queue_contract] by blast
  have "issued_for (net_issued ex_issued) (short_header 64 ex_token [7]) (V4 (Ipv4Addr 10 0 0 1))"
    by code_simp
  with iff show ?thesis by (simp add: ex_issued_def)
qed

text \<open>C17: The blaster against the server's socket: a flood whose connection IDs are no tokens for
  their sources is dropped in full. With buffers to fill and a finite backlog \<open>poll_recv\<close> returns,
  hands over nothing, and \<open>rejected\<close> grows by as much as \<open>received\<close>.\<close>

theorem flood_is_dropped_and_counted:
  assumes "blasted ops aes a" and "recv_contract ops" and "finite_backlog ops pend"
    and "authenticator inner = Some a" and "bufs \<noteq> []"
  shows "\<exists>res inner' bufs' meta'. poll_recv ops aes dflt (inner, bufs, meta) = Some (res, inner', bufs', meta') \<and>
    res \<noteq> RecvPanic \<and> delivered_count res = 0 \<and>
    rejected (counts inner') - rejected (counts inner) = received (counts inner') - received (counts inner)"
proof -
  obtain res inner' bufs' meta' where
      ret: "poll_recv ops aes dflt (inner, bufs, meta) = Some (res, inner', bufs', meta')"
    using poll_recv_returns [OF assms(3,5,2)] by (metis prod_cases4)
  then obtain log lost where link: "recv_link ops aes (inner, bufs, meta) log (inner', bufs', meta')"
    and d: "recv_delivers aes (Some a) log lost res bufs' meta'"
    using poll_recv_post [OF assms(2) ret] assms(4) by (auto simp: recv_post_def)
  have "recv_log ops (io inner) log (io inner')" using link by (simp add: recv_link_def)
  then have "\<forall>p \<in> set log. \<not> admitted aes (Some a) p"
    by (rule recv_log_all) (rule blasted_refused [OF assms(1)])
  then have none: "filter (admitted aes (Some a)) log = []" "filter (Not \<circ> admitted aes (Some a)) log = log"
    by (simp_all add: filter_empty_conv)
  then have "delivered_count res = 0" using recv_delivers_length [OF d] by simp
  moreover have "res \<noteq> RecvPanic" using d by auto
  moreover have "rejected (counts inner') - rejected (counts inner) = received (counts inner') - received (counts inner)"
    using link none(2) assms(4) by (simp add: recv_link_def counts_def log_counters_def)
  ultimately show ?thesis using ret by blast
qed

theorem flood_is_dropped_and_counted_witness:
  "\<exists>res inner' bufs' meta'. poll_recv blast_ops zero_aes ex_meta
      (\<lparr>io = 5, authenticator = Some (Authenticator_new ClientToServer LOCALHOST), counters = Counters_default\<rparr>,
       [replicate 1200 0], [ex_meta]) = Some (res, inner', bufs', meta') \<and> delivered_count res = 0"
  using flood_is_dropped_and_counted [OF blast_ops_blasted blast_ops_contract blast_ops_backlog,
      where inner = "\<lparr>io = 5, authenticator = Some (Authenticator_new ClientToServer LOCALHOST), counters = Counters_default\<rparr>"
        and bufs = "[replicate 1200 0]" and meta = "[ex_meta]" and dflt = ex_meta]
  by auto

end
