(* ===== verification/Socket_Send.thy ===== *)
theory Socket_Send
  imports Socket_Base
begin

text \<open>
  The send path of \<open>src/socket.rs\<close>: \<open>send_datagram\<close>, \<open>try_send\<close> with its splitting of a
  batch, and \<open>PacketSender::poll_send\<close>, a loop over one \<open>writable()\<close> future that is
  installed, polled and dropped once it completes.
\<close>

text \<open>The fields of Quinn's \<open>Transmit\<close> that the code reads.\<close>

record Transmit =
  destination :: SocketAddr
  contents :: bytes
  segment_size :: "nat option"

section \<open>Sending\<close>

definition send_datagram ::
  "('e, 'f) udp_ops \<Rightarrow> SocketAddr \<Rightarrow> bytes \<Rightarrow> 'e Inner \<Rightarrow> (io_error + unit) \<times> 'e Inner" where
  "send_datagram ops dest bs inner =
     (case op_try_send_to ops bs dest (io inner) of
        (Inl err, e) \<Rightarrow> (Err err, inner\<lparr>io := e\<rparr>)
      | (Inr n, e) \<Rightarrow> (Ok (), inner\<lparr>io := e, counters := add_sent n (counters inner)\<rparr>))"

text \<open>The \<open>for\<close> loop over the chunks of a batch; \<open>?\<close> leaves it at the first error.\<close>

fun send_chunks ::
  "('e, 'f) udp_ops \<Rightarrow> SocketAddr \<Rightarrow> bytes list \<Rightarrow> 'e Inner \<Rightarrow> (io_error + unit) \<times> 'e Inner" where
  "send_chunks ops dest [] inner = (Ok (), inner)"
| "send_chunks ops dest (datagram # rest) inner =
     (case send_datagram ops dest datagram inner of
        (Inl err, inner1) \<Rightarrow> (Err err, inner1)
      | (Inr _, inner1) \<Rightarrow> send_chunks ops dest rest inner1)"

text \<open>\<open>chunks(0)\<close> panics.\<close>

definition try_send ::
  "('e, 'f) udp_ops \<Rightarrow> Transmit \<Rightarrow> 'e Inner \<Rightarrow> ((io_error + unit) \<times> 'e Inner) option" where
  "try_send ops transmit inner =
     (case segment_size transmit of
        None \<Rightarrow> Some (send_datagram ops (destination transmit) (contents transmit) inner)
      | Some seg \<Rightarrow>
          if seg = 0 then None
          else Some (send_chunks ops (destination transmit) (chunks seg (contents transmit)) inner))"

section \<open>The sender\<close>

record ('e, 'f) PacketSender =
  socket :: "'e Inner"
  writable :: "'f option"

definition create_sender :: "'e Inner \<Rightarrow> ('e, 'f) PacketSender" where
  "create_sender inner = \<lparr>socket = inner, writable = None\<rparr>"

datatype send_out = SendPanic | SendPoll "(io_error + unit) poll"

definition poll_send_step ::
  "('e, 'f) udp_ops \<Rightarrow> Transmit \<Rightarrow> ('e, 'f) PacketSender \<Rightarrow>
     (send_out \<times> ('e, 'f) PacketSender) + ('e, 'f) PacketSender" where
  "poll_send_step ops transmit this =
     (let this = (if writable this = None then this\<lparr>writable := Some (op_writable ops)\<rparr> else this)
      in (case writable this of
            None \<Rightarrow> Inl (SendPanic, this)
          | Some f \<Rightarrow>
              (case op_poll_writable ops f (io (socket this)) of
                 (Pending, f', e) \<Rightarrow>
                   Inl (SendPoll Pending,
                        this\<lparr>socket := (socket this)\<lparr>io := e\<rparr>, writable := Some f'\<rparr>)
               | (Ready ready, f', e) \<Rightarrow>
                   (let this = this\<lparr>socket := (socket this)\<lparr>io := e\<rparr>, writable := None\<rparr>
                    in (case ready of
                          Inl err \<Rightarrow> Inl (SendPoll (Ready (Err err)), this)
                        | Inr _ \<Rightarrow>
                            (case try_send ops transmit (socket this) of
                               None \<Rightarrow> Inl (SendPanic, this)
                             | Some (Inr _, inner) \<Rightarrow>
                                 Inl (SendPoll (Ready (Ok ())), this\<lparr>socket := inner\<rparr>)
                             | Some (Inl err, inner) \<Rightarrow>
                                 if kind err = WouldBlock then Inr (this\<lparr>socket := inner\<rparr>)
                                 else Inl (SendPoll (Ready (Ok ())), this\<lparr>socket := inner\<rparr>)))))))"

definition poll_send ::
  "('e, 'f) udp_ops \<Rightarrow> Transmit \<Rightarrow> ('e, 'f) PacketSender \<Rightarrow>
     (send_out \<times> ('e, 'f) PacketSender) option" where
  "poll_send ops transmit = iterate (\<lambda>this. Some (poll_send_step ops transmit this))"

section \<open>Specification\<close>

text \<open>The log of a run: the datagrams the system accepted, with how many bytes it took.\<close>

inductive send_log ::
  "('e, 'f) udp_ops \<Rightarrow> 'e \<Rightarrow> (SocketAddr \<times> bytes \<times> nat) list \<Rightarrow> 'e \<Rightarrow> bool" for ops where
  sent_nil: "send_log ops e [] e"
| sent_wait: "op_poll_writable ops f e = (r, f', e1) \<Longrightarrow> send_log ops e1 log e2 \<Longrightarrow> send_log ops e log e2"
| sent_fail: "op_try_send_to ops bs dest e = (Inl err, e1) \<Longrightarrow> send_log ops e1 log e2 \<Longrightarrow>
     send_log ops e log e2"
| sent_one: "op_try_send_to ops bs dest e = (Inr n, e1) \<Longrightarrow> send_log ops e1 log e2 \<Longrightarrow>
     send_log ops e ((dest, bs, n) # log) e2"

definition sent_counters :: "(SocketAddr \<times> bytes \<times> nat) list \<Rightarrow> Counters \<Rightarrow> Counters" where
  "sent_counters log c = c
     \<lparr>ctr_sent := ctr_sent c + of_nat (length log),
      ctr_sent_bytes := ctr_sent_bytes c + of_nat (\<Sum>p\<leftarrow>log. snd (snd p))\<rparr>"

definition send_link ::
  "('e, 'f) udp_ops \<Rightarrow> 'e Inner \<Rightarrow> (SocketAddr \<times> bytes \<times> nat) list \<Rightarrow> 'e Inner \<Rightarrow> bool" where
  "send_link ops inner log inner' \<longleftrightarrow>
     send_log ops (io inner) log (io inner') \<and>
     authenticator inner' = authenticator inner \<and>
     counters inner' = sent_counters log (counters inner)"

definition wire :: "(SocketAddr \<times> bytes \<times> nat) list \<Rightarrow> (SocketAddr \<times> bytes) list" where
  "wire log = map (\<lambda>(dest, bs, n). (dest, bs)) log"

section \<open>Lemmas\<close>

lemma send_log_append:
  "send_log ops e1 log1 e2 \<Longrightarrow> send_log ops e2 log2 e3 \<Longrightarrow> send_log ops e1 (log1 @ log2) e3"
  by (induction rule: send_log.induct) (auto intro: send_log.intros)

lemma sent_counters_append:
  "sent_counters (xs @ ys) c = sent_counters ys (sent_counters xs c)"
  by (simp add: sent_counters_def add.assoc)

lemma sent_counters_Nil [simp]: "sent_counters [] c = c"
  by (simp add: sent_counters_def)

lemma wire_simps [simp]: "wire [] = []" "wire (xs @ ys) = wire xs @ wire ys"
  by (simp_all add: wire_def)

lemma send_link_refl: "send_link ops inner [] inner"
  by (simp add: send_link_def sent_nil)

lemma send_link_trans:
  "send_link ops i1 log1 i2 \<Longrightarrow> send_link ops i2 log2 i3 \<Longrightarrow> send_link ops i1 (log1 @ log2) i3"
  by (auto simp: send_link_def sent_counters_append intro: send_log_append)

lemma send_datagram_link:
  assumes "send_datagram ops dest bs inner = (r, inner')"
  shows "\<exists>log. send_link ops inner log inner' \<and>
    wire log = (case r of Inl _ \<Rightarrow> [] | Inr _ \<Rightarrow> [(dest, bs)])"
proof -
  obtain x e where x: "op_try_send_to ops bs dest (io inner) = (x, e)"
    by (cases "op_try_send_to ops bs dest (io inner)")
  show ?thesis
  proof (cases x)
    case (Inl err)
    then show ?thesis
      using assms x sent_fail [OF _ sent_nil]
      by (auto simp: send_datagram_def send_link_def intro!: exI [of _ "[]"])
  next
    case (Inr n)
    then show ?thesis
      using assms x sent_one [OF _ sent_nil]
      by (auto simp: send_datagram_def send_link_def sent_counters_def add_sent_def wire_def
          intro!: exI [of _ "[(dest, bs, n)]"])
  qed
qed

lemma send_chunks_link:
  "send_chunks ops dest cs inner = (r, inner') \<Longrightarrow>
     \<exists>log k. send_link ops inner log inner' \<and> wire log = map (Pair dest) (take k cs) \<and>
       (case r of Inl _ \<Rightarrow> k < length cs | Inr _ \<Rightarrow> k = length cs)"
proof (induction cs arbitrary: inner)
  case Nil
  then show ?case by (auto intro!: exI [of _ "[]"] send_link_refl)
next
  case (Cons c cs)
  obtain x i1 where x: "send_datagram ops dest c inner = (x, i1)"
    by (cases "send_datagram ops dest c inner")
  obtain log1 where log1: "send_link ops inner log1 i1"
    "wire log1 = (case x of Inl _ \<Rightarrow> [] | Inr _ \<Rightarrow> [(dest, c)])"
    using send_datagram_link [OF x] by blast
  show ?case
  proof (cases x)
    case (Inl err)
    then show ?thesis using Cons.prems x log1 by (auto intro!: exI [of _ log1] exI [of _ 0])
  next
    case (Inr u)
    then obtain log2 k where "send_link ops i1 log2 inner'" "wire log2 = map (Pair dest) (take k cs)"
      "case r of Inl _ \<Rightarrow> k < length cs | Inr _ \<Rightarrow> k = length cs"
      using Cons.IH [of i1] Cons.prems x by auto
    then show ?thesis
      using log1 Inr send_link_trans
      by (intro exI [of _ "log1 @ log2"] exI [of _ "Suc k"]) (auto split: sum.splits)
  qed
qed

text \<open>The datagrams a transmit stands for.\<close>

definition datagrams :: "Transmit \<Rightarrow> bytes list" where
  "datagrams transmit = (case segment_size transmit of
     None \<Rightarrow> [contents transmit] | Some seg \<Rightarrow> chunks seg (contents transmit))"

lemma try_send_link:
  assumes "try_send ops tr inner = Some (r, inner')"
  shows "\<exists>log k. send_link ops inner log inner' \<and>
    wire log = map (Pair (destination tr)) (take k (datagrams tr)) \<and>
    (case r of Inl _ \<Rightarrow> k < length (datagrams tr) | Inr _ \<Rightarrow> k = length (datagrams tr))"
proof (cases "segment_size tr")
  case None
  then have "send_datagram ops (destination tr) (contents tr) inner = (r, inner')"
    using assms by (simp add: try_send_def)
  then obtain log where "send_link ops inner log inner'"
    "wire log = (case r of Inl _ \<Rightarrow> [] | Inr _ \<Rightarrow> [(destination tr, contents tr)])"
    using send_datagram_link by blast
  then show ?thesis
    by (intro exI [of _ log] exI [of _ "case r of Inl _ \<Rightarrow> 0 | Inr _ \<Rightarrow> 1"])
      (simp add: datagrams_def None split: sum.split)
next
  case (Some seg)
  then have d: "datagrams tr = chunks seg (contents tr)" by (simp add: datagrams_def)
  have "send_chunks ops (destination tr) (chunks seg (contents tr)) inner = (r, inner')"
    using assms Some by (simp add: try_send_def split: if_splits)
  then show ?thesis unfolding d by (rule send_chunks_link)
qed

text \<open>An error of \<open>try_send\<close> is one the system gave for a datagram of the batch.\<close>

definition send_refused :: "('e, 'f) udp_ops \<Rightarrow> Transmit \<Rightarrow> io_error \<Rightarrow> bool" where
  "send_refused ops tr err \<longleftrightarrow>
     (\<exists>bs \<in> set (datagrams tr). \<exists>e e'. op_try_send_to ops bs (destination tr) e = (Inl err, e'))"

lemma send_datagram_refused:
  "send_datagram ops dest bs inner = (Inl err, inner') \<Longrightarrow>
     op_try_send_to ops bs dest (io inner) = (Inl err, io inner')"
  by (auto simp: send_datagram_def split: prod.splits sum.splits)

lemma send_chunks_refused:
  "send_chunks ops dest cs inner = (Inl err, inner') \<Longrightarrow>
     \<exists>bs \<in> set cs. \<exists>e e'. op_try_send_to ops bs dest e = (Inl err, e')"
proof (induction cs arbitrary: inner)
  case (Cons c cs)
  then show ?case
    using send_datagram_refused [of ops dest c inner err inner']
    by (cases "send_datagram ops dest c inner") (fastforce split: sum.splits)
qed simp

lemma try_send_refused:
  "try_send ops tr inner = Some (Inl err, inner') \<Longrightarrow> send_refused ops tr err"
  using send_datagram_refused [of ops "destination tr" "contents tr" inner err inner']
  by (auto simp: try_send_def send_refused_def datagrams_def split: option.splits if_splits
      dest: send_chunks_refused)

text \<open>The futures a sender may still poll: fresh, or polled and not completed.\<close>

inductive live_future :: "('e, 'f) udp_ops \<Rightarrow> 'f \<Rightarrow> bool" for ops where
  fresh: "live_future ops (op_writable ops)"
| waiting: "live_future ops f \<Longrightarrow> op_poll_writable ops f e = (Pending, f', e') \<Longrightarrow> live_future ops f'"

definition sender_inv :: "('e, 'f) udp_ops \<Rightarrow> ('e, 'f) PacketSender \<Rightarrow> bool" where
  "sender_inv ops this \<longleftrightarrow> (\<forall>f. writable this = Some f \<longrightarrow> live_future ops f)"

text \<open>One turn of \<open>poll_send\<close>, with the log it adds.\<close>

definition turn_log ::
  "('e, 'f) udp_ops \<Rightarrow> Transmit \<Rightarrow> ('e, 'f) PacketSender \<Rightarrow> ('e, 'f) PacketSender \<Rightarrow> nat \<Rightarrow> bool" where
  "turn_log ops tr this this' k \<longleftrightarrow>
     (\<exists>log. send_link ops (socket this) log (socket this') \<and>
        wire log = map (Pair (destination tr)) (take k (datagrams tr)))"

text \<open>The future a turn polls, and what the turn does with the answer.\<close>

definition current_future :: "('e, 'f) udp_ops \<Rightarrow> ('e, 'f) PacketSender \<Rightarrow> 'f" where
  "current_future ops this = (case writable this of None \<Rightarrow> op_writable ops | Some f \<Rightarrow> f)"

lemma poll_send_step_polled:
  assumes "op_poll_writable ops (current_future ops this) (io (socket this)) = (p, f', e)"
  shows "poll_send_step ops tr this =
    (let inner1 = (socket this)\<lparr>io := e\<rparr>; idle = (\<lambda>inner. this\<lparr>socket := inner, writable := None\<rparr>)
     in case p of
       Pending \<Rightarrow> Inl (SendPoll Pending, this\<lparr>socket := inner1, writable := Some f'\<rparr>)
     | Ready (Inl err) \<Rightarrow> Inl (SendPoll (Ready (Err err)), idle inner1)
     | Ready (Inr _) \<Rightarrow>
         (case try_send ops tr inner1 of
            None \<Rightarrow> Inl (SendPanic, idle inner1)
          | Some (Inr _, inner2) \<Rightarrow> Inl (SendPoll (Ready (Ok ())), idle inner2)
          | Some (Inl err, inner2) \<Rightarrow>
              if kind err = WouldBlock then Inr (idle inner2) else Inl (SendPoll (Ready (Ok ())), idle inner2)))"
  using assms
  by (cases "writable this"; cases p rule: poll_result_cases)
    (auto simp: poll_send_step_def current_future_def Let_def split: option.split sum.split)

lemma poll_send_step_cases:
  assumes "segment_size tr \<noteq> Some 0" and inv: "sender_inv ops this"
  obtains
    (pending) f this' where "poll_send_step ops tr this = Inl (SendPoll Pending, this')"
      "writable this' = Some f" "live_future ops f" "turn_log ops tr this this' 0"
  | (failed) f f' err e this' where "poll_send_step ops tr this = Inl (SendPoll (Ready (Err err)), this')"
      "live_future ops f" "op_poll_writable ops f (io (socket this)) = (Ready (Inl err), f', e)"
      "writable this' = None" "turn_log ops tr this this' 0"
  | (finished) k this' where "poll_send_step ops tr this = Inl (SendPoll (Ready (Ok ())), this')"
      "writable this' = None" "turn_log ops tr this this' k" "k \<le> length (datagrams tr)"
      "k < length (datagrams tr) \<longrightarrow> (\<exists>err. kind err \<noteq> WouldBlock \<and> send_refused ops tr err)"
  | (again) k this' where "poll_send_step ops tr this = Inr this'"
      "writable this' = None" "turn_log ops tr this this' k" "k < length (datagrams tr)"
proof -
  let ?f = "current_future ops this"
  have live: "live_future ops ?f"
    using inv by (auto simp: current_future_def sender_inv_def intro: fresh split: option.split)
  obtain p f' e where p: "op_poll_writable ops ?f (io (socket this)) = (p, f', e)"
    by (cases "op_poll_writable ops ?f (io (socket this))")
  note step = poll_send_step_polled [OF p, of tr, unfolded Let_def]
  let ?inner1 = "(socket this)\<lparr>io := e\<rparr>"
  have link: "send_link ops (socket this) log inner" if "send_link ops ?inner1 log inner" for log inner
    using that sent_wait [OF p] by (simp add: send_link_def)
  have none: "turn_log ops tr this (this\<lparr>socket := ?inner1, writable := w\<rparr>) 0" for w
    using link [OF send_link_refl] by (auto simp: turn_log_def intro!: exI [of _ "[]"])
  show thesis
  proof (cases p rule: poll_result_cases)
    case pending
    show thesis
      by (rule that(1) [OF _ _ waiting [OF live p [unfolded pending]] none]) (simp_all add: step pending)
  next
    case (failed err)
    show thesis
      by (rule that(2) [OF _ live p [unfolded failed] _ none]) (simp_all add: step failed)
  next
    case (ready x)
    obtain r inner2 where t: "try_send ops tr ?inner1 = Some (r, inner2)"
      using assms(1) by (cases "try_send ops tr ?inner1")
        (auto simp: try_send_def split: option.splits if_splits)
    obtain log k where log: "send_link ops ?inner1 log inner2"
        "wire log = map (Pair (destination tr)) (take k (datagrams tr))"
      and k: "case r of Inl _ \<Rightarrow> k < length (datagrams tr) | Inr _ \<Rightarrow> k = length (datagrams tr)"
      using try_send_link [OF t] by blast
    have turn: "turn_log ops tr this (this\<lparr>socket := inner2, writable := None\<rparr>) k"
      using link [OF log(1)] log(2) by (auto simp: turn_log_def)
    show thesis
    proof (cases r)
      case (Inl err)
      then have "send_refused ops tr err" using t by (auto intro: try_send_refused)
      then show thesis
        using step t ready k Inl that(3) [OF _ _ turn] that(4) [OF _ _ turn]
        by (cases "kind err = WouldBlock") auto
    qed (use step t ready k that(3) [OF _ _ turn] in auto)
  qed
qed

section \<open>When \<open>poll_send\<close> returns\<close>

text \<open>
  The contract of the system's readiness: \<open>retries\<close> bounds how often it can still report a
  full buffer right after it reported the socket writable.
\<close>

definition finite_retries :: "('e, 'f) udp_ops \<Rightarrow> ('e \<Rightarrow> nat) \<Rightarrow> bool" where
  "finite_retries ops retries \<longleftrightarrow>
     (\<forall>f e r f' e'. op_poll_writable ops f e = (r, f', e') \<longrightarrow> retries e' \<le> retries e) \<and>
     (\<forall>bs dest e r e'. op_try_send_to ops bs dest e = (r, e') \<longrightarrow> retries e' \<le> retries e \<and>
        (\<forall>err. r = Inl err \<longrightarrow> kind err = WouldBlock \<longrightarrow> retries e' < retries e))"

abbreviation retried :: "(io_error + unit) \<Rightarrow> bool" where
  "retried r \<equiv> (\<exists>err. r = Inl err \<and> kind err = WouldBlock)"

lemma finite_retries_wait:
  "finite_retries ops m \<Longrightarrow> op_poll_writable ops f e = (r, f', e') \<Longrightarrow> m e' \<le> m e"
  unfolding finite_retries_def by blast

lemma send_datagram_retries:
  assumes "finite_retries ops m" and "send_datagram ops dest bs inner = (r, inner')"
  shows "m (io inner') \<le> m (io inner) \<and> (retried r \<longrightarrow> m (io inner') < m (io inner))"
proof -
  obtain x e where x: "op_try_send_to ops bs dest (io inner) = (x, e)"
    by (cases "op_try_send_to ops bs dest (io inner)")
  have "m e \<le> m (io inner) \<and> (\<forall>err. x = Inl err \<longrightarrow> kind err = WouldBlock \<longrightarrow> m e < m (io inner))"
    using assms(1) x unfolding finite_retries_def by blast
  then show ?thesis
    using assms(2) x by (cases x) (auto simp: send_datagram_def)
qed

lemma send_chunks_retries:
  "finite_retries ops m \<Longrightarrow> send_chunks ops dest cs inner = (r, inner') \<Longrightarrow>
     m (io inner') \<le> m (io inner) \<and> (retried r \<longrightarrow> m (io inner') < m (io inner))"
proof (induction cs arbitrary: inner)
  case Nil
  then show ?case by auto
next
  case (Cons c cs)
  obtain x i1 where x: "send_datagram ops dest c inner = (x, i1)"
    by (cases "send_datagram ops dest c inner")
  note first = send_datagram_retries [OF Cons.prems(1) x]
  show ?case
  proof (cases x)
    case (Inl err)
    then show ?thesis using Cons.prems x first by auto
  next
    case (Inr u)
    then show ?thesis using Cons.IH [OF Cons.prems(1), of i1] Cons.prems(2) x first by auto
  qed
qed

lemma try_send_retries:
  "finite_retries ops m \<Longrightarrow> try_send ops tr inner = Some (r, inner') \<Longrightarrow>
     m (io inner') \<le> m (io inner) \<and> (retried r \<longrightarrow> m (io inner') < m (io inner))"
  by (auto simp: try_send_def split: option.splits if_splits
      dest: send_datagram_retries send_chunks_retries)

lemma poll_send_returns:
  assumes fin: "finite_retries ops m"
  shows "\<exists>out. poll_send ops tr this = Some out"
  unfolding poll_send_def
proof (rule iterate_returns [where invar = "\<lambda>_. True" and m = "\<lambda>this. m (io (socket this))"])
  fix this :: "('a, 'b) PacketSender"
  have "m (io (socket this')) < m (io (socket this))" if step: "poll_send_step ops tr this = Inr this'" for this'
  proof -
    obtain f e f' err where w: "op_poll_writable ops f (io (socket this)) = (Ready (Inr ()), f', e)"
      and t: "try_send ops tr ((socket this)\<lparr>io := e\<rparr>) = Some (Inl err, socket this')"
      and "kind err = WouldBlock"
      using step
      by (auto simp: poll_send_step_def Let_def split: if_splits option.splits prod.splits poll.splits
          sum.splits)
    then show ?thesis
      using finite_retries_wait [OF fin w] try_send_retries [OF fin t] by auto
  qed
  then show "\<exists>r. Some (poll_send_step ops tr this) = Some r \<and>
      (\<forall>s'. r = Inr s' \<longrightarrow> True \<and> m (io (socket s')) < m (io (socket this)))"
    by blast
qed simp

section \<open>Outcomes\<close>

definition send_outcome ::
  "('e, 'f) udp_ops \<Rightarrow> send_out \<Rightarrow> ('e, 'f) PacketSender \<Rightarrow> bool" where
  "send_outcome ops out this' \<longleftrightarrow>
     out \<noteq> SendPanic \<and> sender_inv ops this' \<and>
     (writable this' = None \<longleftrightarrow> out \<noteq> SendPoll Pending) \<and>
     (\<forall>err. out = SendPoll (Ready (Err err)) \<longrightarrow>
        (\<exists>f e f' e'. live_future ops f \<and> op_poll_writable ops f e = (Ready (Inl err), f', e')))"

lemma poll_send_outcome:
  assumes seg: "segment_size tr \<noteq> Some 0" and inv: "sender_inv ops this"
    and ret: "poll_send ops tr this = Some out"
  shows "send_outcome ops (fst out) (snd out)"
  using ret [unfolded poll_send_def] inv
proof (induction rule: iterate_rule)
  case (stop this out)
  from seg stop(1) show ?case
    by (cases rule: poll_send_step_cases)
      (use stop in \<open>fastforce simp: send_outcome_def sender_inv_def\<close>)+
next
  case (again this this')
  from seg again(1) show ?case
    by (cases rule: poll_send_step_cases) (use again in \<open>auto simp: sender_inv_def\<close>)
qed

lemma poll_send_single:
  assumes seg: "segment_size tr = None" and inv: "sender_inv ops this"
    and ret: "poll_send ops tr this = Some out"
  shows "\<exists>log. send_link ops (socket this) log (socket (snd out)) \<and>
    (wire log = [] \<or> fst out = SendPoll (Ready (Ok ())) \<and> wire log = [(destination tr, contents tr)])"
proof -
  have seg0: "segment_size tr \<noteq> Some 0" and one: "datagrams tr = [contents tr]"
    using seg by (simp_all add: datagrams_def)
  from ret [unfolded poll_send_def] inv show ?thesis
  proof (induction rule: iterate_rule)
    case (stop this out)
    from seg0 stop(1) show ?case
    proof (cases rule: poll_send_step_cases)
      case (finished k this')
      then show ?thesis using stop(2) one by (cases k) (auto simp: turn_log_def)
    qed (use stop in \<open>auto simp: turn_log_def\<close>)
  next
    case turn: (again this this1)
    from seg0 turn(1) show ?case
    proof (cases rule: poll_send_step_cases)
      case (again k this')
      then have this': "this' = this1" and "k = 0" using turn(2) one by simp_all
      then obtain log1 where log1: "send_link ops (socket this) log1 (socket this1)" "wire log1 = []"
        using again by (auto simp: turn_log_def)
      have prepend: "\<exists>log. send_link ops (socket this) log (socket (snd out)) \<and> (wire log = [] \<or>
          fst out = SendPoll (Ready (Ok ())) \<and> wire log = [(destination tr, contents tr)])"
        if "send_link ops (socket this1) log2 (socket (snd out))" and "wire log2 = [] \<or>
          fst out = SendPoll (Ready (Ok ())) \<and> wire log2 = [(destination tr, contents tr)]" for log2 out
        using that log1 send_link_trans by (intro exI [of _ "log1 @ log2"]) auto
      have "sender_inv ops this1" using again this' by (simp add: sender_inv_def)
      then show ?thesis using prepend by blast
    qed (use turn in auto)
  qed
qed

text \<open>
  The attempts of one call: the cut-off attempts \<open>ks\<close> that were given up on a full buffer, and the
  last one, of which \<open>k\<close> datagrams went out.
\<close>

definition attempts_log :: "Transmit \<Rightarrow> nat list \<Rightarrow> nat \<Rightarrow> (SocketAddr \<times> bytes) list" where
  "attempts_log tr ks k =
     map (Pair (destination tr)) (concat (map (\<lambda>k. take k (datagrams tr)) ks) @ take k (datagrams tr))"

definition send_attempts ::
  "('e, 'f) udp_ops \<Rightarrow> Transmit \<Rightarrow> ('e, 'f) PacketSender \<Rightarrow> send_out \<Rightarrow> ('e, 'f) PacketSender \<Rightarrow>
     nat list \<Rightarrow> nat \<Rightarrow> bool" where
  "send_attempts ops tr this out this' ks k \<longleftrightarrow>
     (\<exists>log. send_link ops (socket this) log (socket this') \<and> wire log = attempts_log tr ks k) \<and>
     (\<forall>j \<in> set ks. j < length (datagrams tr)) \<and>
     (if out = SendPoll (Ready (Ok ()))
      then k = length (datagrams tr) \<or>
        k < length (datagrams tr) \<and> (\<exists>err. kind err \<noteq> WouldBlock \<and> send_refused ops tr err)
      else k = 0)"

lemma send_attempts_last:
  "turn_log ops tr this this' k \<Longrightarrow>
     (if out = SendPoll (Ready (Ok ()))
      then k = length (datagrams tr) \<or>
        k < length (datagrams tr) \<and> (\<exists>err. kind err \<noteq> WouldBlock \<and> send_refused ops tr err)
      else k = 0) \<Longrightarrow> send_attempts ops tr this out this' [] k"
  by (simp add: send_attempts_def turn_log_def attempts_log_def)

lemma send_attempts_again:
  assumes "turn_log ops tr this this1 j" and "j < length (datagrams tr)"
    and "send_attempts ops tr this1 out this' ks k"
  shows "send_attempts ops tr this out this' (j # ks) k"
proof -
  obtain log1 where "send_link ops (socket this) log1 (socket this1)"
      "wire log1 = map (Pair (destination tr)) (take j (datagrams tr))"
    using assms(1) by (auto simp: turn_log_def)
  moreover obtain log2 where "send_link ops (socket this1) log2 (socket this')"
      "wire log2 = attempts_log tr ks k"
    using assms(3) by (auto simp: send_attempts_def)
  ultimately have "\<exists>log. send_link ops (socket this) log (socket this') \<and> wire log = attempts_log tr (j # ks) k"
    using send_link_trans by (intro exI [of _ "log1 @ log2"]) (auto simp: attempts_log_def)
  then show ?thesis using assms(2,3) by (simp add: send_attempts_def)
qed

lemma poll_send_attempts:
  assumes seg: "segment_size tr \<noteq> Some 0" and inv: "sender_inv ops this"
    and ret: "poll_send ops tr this = Some out"
  shows "\<exists>ks k. send_attempts ops tr this (fst out) (snd out) ks k"
  using ret [unfolded poll_send_def] inv
proof (induction rule: iterate_rule)
  case (stop this out)
  from seg stop(1) show ?case
  proof (cases rule: poll_send_step_cases)
    case (finished k this')
    then have "send_attempts ops tr this (fst out) (snd out) [] k"
      using stop(2) by (auto intro!: send_attempts_last)
    then show ?thesis by blast
  qed (use stop in \<open>auto intro!: exI [of _ "[]"] exI [of _ 0] send_attempts_last\<close>)
next
  case turn: (again this this1)
  from seg turn(1) show ?case
  proof (cases rule: poll_send_step_cases)
    case (again k this')
    then show ?thesis
      using turn send_attempts_again [of ops tr this this1 k] by (fastforce simp: sender_inv_def)
  qed (use turn in auto)
qed

section \<open>An example environment\<close>

text \<open>
  A socket that is always writable, follows a script of successes and full buffers, and keeps
  what it put on the wire.
\<close>

type_synonym script_env = "bool list \<times> bytes list"

fun script_send :: "bytes \<Rightarrow> SocketAddr \<Rightarrow> script_env \<Rightarrow> (io_error + nat) \<times> script_env" where
  "script_send bs dest (False # script, w) = (Inl \<lparr>kind = WouldBlock\<rparr>, (script, w))"
| "script_send bs dest (script, w) = (Inr (length bs), (tl script, w @ [bs]))"

definition script_ops :: "(script_env, unit) udp_ops" where
  "script_ops = \<lparr>
     op_local_addr = \<lambda>e. Ok \<lparr>ip = V4 LOCALHOST, port = 4433\<rparr>,
     op_poll_recv_ready = \<lambda>e. (Pending, e),
     op_try_recv_from = \<lambda>cap e. (Inl \<lparr>kind = WouldBlock\<rparr>, e),
     op_try_send_to = script_send,
     op_writable = (),
     op_poll_writable = \<lambda>f e. (Ready (Ok ()), f, e)\<rparr>"

lemma script_retries: "finite_retries script_ops (\<lambda>e. length (fst e))"
  unfolding finite_retries_def script_ops_def by (auto elim!: script_send.elims)

definition ex_socket :: "bool list \<Rightarrow> script_env Inner" where
  "ex_socket script = \<lparr>io = (script, []), authenticator = None, counters = Counters_default\<rparr>"

definition ex_transmit :: "nat option \<Rightarrow> Transmit" where
  "ex_transmit seg = \<lparr>destination = \<lparr>ip = V4 LOCALHOST, port = 4433\<rparr>, contents = [1, 2, 3, 4],
     segment_size = seg\<rparr>"

lemma create_sender_inv: "sender_inv ops (create_sender inner)"
  by (simp add: sender_inv_def create_sender_def)

section \<open>Properties\<close>

text \<open>C5: \<open>poll_send\<close> returns when the system's spurious wake-ups are finite, never panics
  on a valid segment size, and keeps the sender's protocol: a stored \<open>writable()\<close> future has
  never completed, one is kept exactly while the result is \<open>Pending\<close>, and an error is returned
  only if that future failed, never because a datagram could not be sent.\<close>

theorem poll_send_keeps_the_protocol:
  assumes "finite_retries ops retries" and "segment_size transmit \<noteq> Some 0" and "sender_inv ops this"
  shows "\<exists>out this'. poll_send ops transmit this = Some (out, this') \<and>
    out \<noteq> SendPanic \<and> sender_inv ops this' \<and>
    (writable this' = None \<longleftrightarrow> out \<noteq> SendPoll Pending) \<and>
    (\<forall>err. out = SendPoll (Ready (Err err)) \<longrightarrow>
       (\<exists>f e f' e'. live_future ops f \<and> op_poll_writable ops f e = (Ready (Inl err), f', e')))"
proof -
  obtain out this' where ret: "poll_send ops transmit this = Some (out, this')"
    using poll_send_returns [OF assms(1), of transmit this] by auto
  from poll_send_outcome [OF assms(2,3) ret] have "send_outcome ops out this'" by simp
  with ret show ?thesis by (auto simp: send_outcome_def)
qed

theorem poll_send_keeps_the_protocol_witness:
  "\<exists>out this'. poll_send script_ops (ex_transmit None) (create_sender (ex_socket [False, True])) =
      Some (out, this') \<and>
    out \<noteq> SendPanic \<and> sender_inv script_ops this' \<and>
    (writable this' = None \<longleftrightarrow> out \<noteq> SendPoll Pending) \<and>
    (\<forall>err. out = SendPoll (Ready (Err err)) \<longrightarrow>
       (\<exists>f e f' e'. live_future script_ops f \<and> op_poll_writable script_ops f e = (Ready (Inl err), f', e')))"
  by (rule poll_send_keeps_the_protocol [OF script_retries])
    (simp_all add: ex_transmit_def create_sender_inv)

text \<open>C18: A transmit without a segment size puts at most one datagram on the wire per call of
  \<open>poll_send\<close>, that datagram is exactly the contents for the destination, it is only put there
  when the call returns \<open>Ready(Ok)\<close>, and the sent counters count it and its bytes.\<close>

theorem poll_send_at_most_once:
  assumes "finite_retries ops retries" and "segment_size transmit = None" and "sender_inv ops this"
  shows "\<exists>out this' log. poll_send ops transmit this = Some (out, this') \<and>
    send_link ops (socket this) log (socket this') \<and>
    (wire log = [] \<or> out = SendPoll (Ready (Ok ())) \<and>
       wire log = [(destination transmit, contents transmit)])"
proof -
  obtain out this' where ret: "poll_send ops transmit this = Some (out, this')"
    using poll_send_returns [OF assms(1), of transmit this] by auto
  with poll_send_single [OF assms(2,3) ret] show ?thesis by auto
qed

theorem poll_send_at_most_once_witness:
  "\<exists>out this' log. poll_send script_ops (ex_transmit None) (create_sender (ex_socket [False, True])) =
      Some (out, this') \<and>
    send_link script_ops (socket (create_sender (ex_socket [False, True]) :: (script_env, unit) PacketSender))
      log (socket this') \<and>
    (wire log = [] \<or> out = SendPoll (Ready (Ok ())) \<and>
       wire log = [(destination (ex_transmit None), contents (ex_transmit None))])"
  by (rule poll_send_at_most_once [OF script_retries]) (simp_all add: ex_transmit_def create_sender_inv)

text \<open>C19: A batch that \<open>try_send\<close> sends is split into non-empty datagrams of at most the
  segment size that concatenate to its contents, all to its destination, and the counters count
  each of them.\<close>

theorem try_send_splits_batches:
  assumes "segment_size transmit = Some seg" and "try_send ops transmit inner = Some (Ok (), inner')"
  shows "\<exists>log. send_link ops inner log inner' \<and>
    concat (map snd (wire log)) = contents transmit \<and>
    (\<forall>(dest, bs) \<in> set (wire log). dest = destination transmit \<and> 0 < length bs \<and> length bs \<le> seg)"
proof -
  have seg: "0 < seg" using assms by (cases seg) (simp_all add: try_send_def)
  have d: "datagrams transmit = chunks seg (contents transmit)"
    using assms(1) by (simp add: datagrams_def)
  obtain log where log: "send_link ops inner log inner'"
    and w: "wire log = map (Pair (destination transmit)) (chunks seg (contents transmit))"
    using try_send_link [OF assms(2)] by (auto simp: d)
  have "concat (map snd (wire log)) = contents transmit"
    using seg by (simp add: w comp_def concat_chunks)
  moreover have "\<forall>(dest, bs) \<in> set (wire log). dest = destination transmit \<and> 0 < length bs \<and> length bs \<le> seg"
    using seg by (auto simp: w dest: chunks_lengths)
  ultimately show ?thesis using log by blast
qed

theorem try_send_splits_batches_witness:
  "\<exists>log inner'. try_send script_ops (ex_transmit (Some 3)) (ex_socket []) = Some (Ok (), inner') \<and>
    send_link script_ops (ex_socket []) log inner' \<and> concat (map snd (wire log)) = [1, 2, 3, 4]"
proof -
  obtain inner' where t: "try_send script_ops (ex_transmit (Some 3)) (ex_socket []) = Some (Ok (), inner')"
    by (auto simp: try_send_def ex_transmit_def ex_socket_def script_ops_def send_datagram_def
        chunks_step)
  with try_send_splits_batches [of "ex_transmit (Some 3)" 3 script_ops "ex_socket []" inner']
  show ?thesis by (auto simp: ex_transmit_def)
qed

text \<open>C30: What a call of \<open>poll_send\<close> puts on the wire, for any environment with finitely many
  spurious wake-ups: a sequence of attempts, each a prefix of the transmit's datagrams in order and
  all to its destination. Every attempt but the last was cut off before the end. When the result is
  \<open>Ready(Ok)\<close> the last attempt is the whole transmit, unless the system refused a datagram with
  another error than \<open>WouldBlock\<close>; otherwise the last attempt is empty. The sent counters count
  every datagram of every attempt.\<close>

theorem poll_send_sends_prefixes:
  assumes "finite_retries ops retries" and "segment_size transmit \<noteq> Some 0" and "sender_inv ops this"
  shows "\<exists>out this' log ks k. poll_send ops transmit this = Some (out, this') \<and>
    send_link ops (socket this) log (socket this') \<and>
    wire log = map (Pair (destination transmit))
      (concat (map (\<lambda>j. take j (datagrams transmit)) ks) @ take k (datagrams transmit)) \<and>
    (\<forall>j \<in> set ks. j < length (datagrams transmit)) \<and>
    (if out = SendPoll (Ready (Ok ()))
     then k = length (datagrams transmit) \<or>
       k < length (datagrams transmit) \<and> (\<exists>err. kind err \<noteq> WouldBlock \<and> send_refused ops transmit err)
     else k = 0)"
proof -
  obtain out this' where ret: "poll_send ops transmit this = Some (out, this')"
    using poll_send_returns [OF assms(1), of transmit this] by auto
  obtain ks k where "send_attempts ops transmit this out this' ks k"
    using poll_send_attempts [OF assms(2,3) ret] by auto
  with ret show ?thesis unfolding send_attempts_def attempts_log_def by blast
qed

theorem poll_send_sends_prefixes_witness:
  "\<exists>out this' log ks k.
    poll_send script_ops (ex_transmit (Some 2)) (create_sender (ex_socket [True, False])) = Some (out, this') \<and>
    send_link script_ops (socket (create_sender (ex_socket [True, False]) :: (script_env, unit) PacketSender))
      log (socket this') \<and>
    wire log = map (Pair (destination (ex_transmit (Some 2))))
      (concat (map (\<lambda>j. take j (datagrams (ex_transmit (Some 2)))) ks) @ take k (datagrams (ex_transmit (Some 2)))) \<and>
    (\<forall>j \<in> set ks. j < length (datagrams (ex_transmit (Some 2)))) \<and>
    (if out = SendPoll (Ready (Ok ()))
     then k = length (datagrams (ex_transmit (Some 2))) \<or>
       k < length (datagrams (ex_transmit (Some 2))) \<and>
         (\<exists>err. kind err \<noteq> WouldBlock \<and> send_refused script_ops (ex_transmit (Some 2)) err)
     else k = 0)"
  by (rule poll_send_sends_prefixes [OF script_retries]) (simp_all add: ex_transmit_def create_sender_inv)

text \<open>C37: If the system's buffer fills up in the middle of a batch, \<open>poll_send\<close> starts the
  batch over. In any environment: when the socket is writable, the batch is cut off by a full buffer
  after \<open>k\<close> of its datagrams, the socket is writable again and takes the whole batch, the call
  returns \<open>Ready(Ok)\<close> and the wire carries the first \<open>k\<close> datagrams twice; the sent counter grows by
  \<open>k\<close> more than the batch has datagrams.\<close>

theorem poll_send_repeats_segments:
  assumes "op_poll_writable ops (current_future ops this) (io (socket this)) = (Ready (Ok ()), f1, e1)"
    and "try_send ops transmit ((socket this)\<lparr>io := e1\<rparr>) = Some (Err err, inner1)" and "kind err = WouldBlock"
    and "op_poll_writable ops (op_writable ops) (io inner1) = (Ready (Ok ()), f2, e2)"
    and "try_send ops transmit (inner1\<lparr>io := e2\<rparr>) = Some (Ok (), inner2)"
  shows "poll_send ops transmit this = Some (SendPoll (Ready (Ok ())), this\<lparr>socket := inner2, writable := None\<rparr>) \<and>
    (\<exists>k log. k < length (datagrams transmit) \<and>
       ctr_sent (counters inner1) = ctr_sent (counters (socket this)) + of_nat k \<and>
       send_link ops (socket this) log inner2 \<and>
       wire log = map (Pair (destination transmit)) (take k (datagrams transmit) @ datagrams transmit) \<and>
       ctr_sent (counters inner2) = ctr_sent (counters (socket this)) + of_nat (k + length (datagrams transmit)))"
proof -
  let ?this1 = "this\<lparr>socket := inner1, writable := None\<rparr>"
  have s1: "poll_send_step ops transmit this = Inr ?this1"
    using assms(2,3) by (simp add: poll_send_step_polled [OF assms(1)])
  have "op_poll_writable ops (current_future ops ?this1) (io (socket ?this1)) = (Ready (Ok ()), f2, e2)"
    using assms(4) by (simp add: current_future_def)
  from poll_send_step_polled [OF this, of transmit] have s2: "poll_send_step ops transmit ?this1 =
      Inl (SendPoll (Ready (Ok ())), this\<lparr>socket := inner2, writable := None\<rparr>)"
    using assms(5) by simp
  have ret: "poll_send ops transmit this = Some (SendPoll (Ready (Ok ())), this\<lparr>socket := inner2, writable := None\<rparr>)"
    by (simp add: poll_send_def iterate.simps [of _ this] iterate.simps [of _ ?this1] s1 s2)
  obtain log1 k where log1: "send_link ops ((socket this)\<lparr>io := e1\<rparr>) log1 inner1"
      "wire log1 = map (Pair (destination transmit)) (take k (datagrams transmit))" "k < length (datagrams transmit)"
    using try_send_link [OF assms(2)] by auto
  obtain log2 where log2: "send_link ops (inner1\<lparr>io := e2\<rparr>) log2 inner2"
      "wire log2 = map (Pair (destination transmit)) (datagrams transmit)"
    using try_send_link [OF assms(5)] by auto
  have links: "send_link ops (socket this) log1 inner1" "send_link ops inner1 log2 inner2"
    using log1(1) log2(1) sent_wait [OF assms(1)] sent_wait [OF assms(4)] by (simp_all add: send_link_def)
  have len: "length log1 = k" "length log2 = length (datagrams transmit)"
    using arg_cong [OF log1(2), of length] arg_cong [OF log2(2), of length] log1(3) by (simp_all add: wire_def)
  show ?thesis
    using ret log1(2,3) log2(2) len links send_link_trans [OF links]
    by (intro conjI exI [of _ k] exI [of _ "log1 @ log2"]) (simp_all add: send_link_def sent_counters_def)
qed

theorem poll_send_repeats_segments_witness:
  "\<exists>this' log. poll_send script_ops (ex_transmit (Some 2)) (create_sender (ex_socket [True, False])) =
      Some (SendPoll (Ready (Ok ())), this') \<and>
    send_link script_ops (ex_socket [True, False]) log (socket this') \<and>
    map snd (wire log) = [[1, 2], [1, 2], [3, 4]]"
proof -
  let ?sender = "create_sender (ex_socket [True, False]) :: (script_env, unit) PacketSender"
  let ?inner1 = "(ex_socket [])\<lparr>io := ([], [[1, 2]]), counters := Counters_default\<lparr>ctr_sent := 1, ctr_sent_bytes := 2\<rparr>\<rparr>"
  let ?inner2 = "(ex_socket [])\<lparr>io := ([], [[1, 2], [1, 2], [3, 4]]),
    counters := Counters_default\<lparr>ctr_sent := 3, ctr_sent_bytes := 6\<rparr>\<rparr>"
  have t1: "try_send script_ops (ex_transmit (Some 2)) ((socket ?sender)\<lparr>io := ([True, False], [])\<rparr>) =
      Some (Err \<lparr>kind = WouldBlock\<rparr>, ?inner1)"
    by code_simp
  have t2: "try_send script_ops (ex_transmit (Some 2)) (?inner1\<lparr>io := ([], [[1, 2]])\<rparr>) = Some (Ok (), ?inner2)"
    by code_simp
  have p1: "op_poll_writable script_ops (current_future script_ops ?sender) (io (socket ?sender)) =
      (Ready (Ok ()), (), ([True, False], []))"
    by code_simp
  have p2: "op_poll_writable script_ops (op_writable script_ops) (io ?inner1) = (Ready (Ok ()), (), ([], [[1, 2]]))"
    by code_simp
  have d: "datagrams (ex_transmit (Some 2)) = [[1, 2], [3, 4]]" by code_simp
  note run = poll_send_repeats_segments [OF p1 t1 _ p2 t2, unfolded d]
  obtain k log where k: "k < length [[1, 2], [3, 4] :: bytes]"
      "ctr_sent (counters ?inner1) = ctr_sent (counters (socket ?sender)) + of_nat k"
    and link: "send_link script_ops (socket ?sender) log ?inner2"
    and w: "wire log = map (Pair (destination (ex_transmit (Some 2)))) (take k [[1, 2], [3, 4]] @ [[1, 2], [3, 4]])"
    using run [THEN conjunct2] by fastforce
  have "k = 1"
    using k by (cases k) (auto simp: create_sender_def ex_socket_def Counters_default_def)
  then show ?thesis
    using run [THEN conjunct1] link w
    by (intro exI [of _ "?sender\<lparr>socket := ?inner2, writable := None\<rparr>"] exI [of _ log])
      (simp add: create_sender_def)
qed

end
