(* ===== verification/Socket_Counts.thy ===== *)
theory Socket_Counts
  imports Socket_Base
begin

text \<open>
  The counters of \<open>src/socket.rs\<close> under concurrency: \<open>counts\<close> loads the five atomics one after
  the other while the receive and the send path update them, each \<open>fetch_add\<close> and each load
  being one step of the interleaving.
\<close>

section \<open>The interleaving\<close>

text \<open>
  Where the receive path stands between its \<open>fetch_add\<close>s for one datagram (its length and
  whether it is refused), where the send path stands, and what \<open>counts\<close> has loaded.
\<close>

datatype receiver = RecvIdle | RecvBytes nat bool | RecvReject

datatype sender = SendIdle | SendBytes nat

datatype reader =
    LoadSent
  | LoadSentBytes u64
  | LoadReceived u64 u64
  | LoadReceivedBytes u64 u64 u64
  | LoadRejected u64 u64 u64 u64
  | Loaded PacketCounts

type_synonym race = "Counters \<times> receiver \<times> sender \<times> reader"

text \<open>One load of \<open>counts\<close>, in the order of its fields.\<close>

fun load_step :: "Counters \<Rightarrow> reader \<Rightarrow> reader" where
  "load_step c LoadSent = LoadSentBytes (ctr_sent c)"
| "load_step c (LoadSentBytes a) = LoadReceived a (ctr_sent_bytes c)"
| "load_step c (LoadReceived a b) = LoadReceivedBytes a b (ctr_received c)"
| "load_step c (LoadReceivedBytes a b r) = LoadRejected a b r (ctr_received_bytes c)"
| "load_step c (LoadRejected a b r rb) =
     Loaded \<lparr>sent = a, sent_bytes = b, received = r, received_bytes = rb, rejected = ctr_rejected c\<rparr>"
| "load_step c (Loaded p) = Loaded p"

text \<open>
  The runs from a fresh socket; the two numbers count the datagrams received and rejected.
\<close>

inductive race_run :: "nat \<Rightarrow> nat \<Rightarrow> race \<Rightarrow> bool" where
  start: "race_run 0 0 (Counters_default, RecvIdle, SendIdle, LoadSent)"
| arrive: "race_run n j (c, RecvIdle, s, r) \<Longrightarrow>
    race_run (Suc n) j (c\<lparr>ctr_received := ctr_received c + 1\<rparr>, RecvBytes len refused, s, r)"
| arrived: "race_run n j (c, RecvBytes len refused, s, r) \<Longrightarrow>
    race_run n j (c\<lparr>ctr_received_bytes := ctr_received_bytes c + of_nat len\<rparr>,
      if refused then RecvReject else RecvIdle, s, r)"
| reject: "race_run n j (c, RecvReject, s, r) \<Longrightarrow> race_run n (Suc j) (add_rejected c, RecvIdle, s, r)"
| send: "race_run n j (c, w, SendIdle, r) \<Longrightarrow>
    race_run n j (c\<lparr>ctr_sent := ctr_sent c + 1\<rparr>, w, SendBytes len, r)"
| send_done: "race_run n j (c, w, SendBytes len, r) \<Longrightarrow>
    race_run n j (c\<lparr>ctr_sent_bytes := ctr_sent_bytes c + of_nat len\<rparr>, w, SendIdle, r)"
| load: "race_run n j (c, w, s, r) \<Longrightarrow> race_run n j (c, w, s, load_step c r)"

text \<open>Whether the receive path holds a refused datagram it has not counted as rejected yet.\<close>

fun owes_rejection :: "receiver \<Rightarrow> nat" where
  "owes_rejection RecvIdle = 0"
| "owes_rejection (RecvBytes _ refused) = (if refused then 1 else 0)"
| "owes_rejection RecvReject = 1"

text \<open>The values loaded so far are values the counters had.\<close>

fun loaded_before :: "nat \<Rightarrow> nat \<Rightarrow> reader \<Rightarrow> bool" where
  "loaded_before n j (LoadReceivedBytes _ _ r) = (\<exists>n' \<le> n. r = of_nat n')"
| "loaded_before n j (LoadRejected _ _ r _) = (\<exists>n' \<le> n. r = of_nat n')"
| "loaded_before n j (Loaded p) = ((\<exists>n' \<le> n. received p = of_nat n') \<and> (\<exists>j' \<le> j. rejected p = of_nat j'))"
| "loaded_before n j _ = True"

section \<open>Invariant\<close>

lemma loaded_before_mono: "loaded_before n j r \<Longrightarrow> n \<le> n' \<Longrightarrow> j \<le> j' \<Longrightarrow> loaded_before n' j' r"
  by (cases r) (auto intro: le_trans)

lemma loaded_before_step:
  "ctr_received c = of_nat n \<Longrightarrow> ctr_rejected c = of_nat j \<Longrightarrow> loaded_before n j r \<Longrightarrow>
     loaded_before n j (load_step c r)"
  by (cases r) auto

lemma race_invariant:
  "race_run n j (c, w, s, r) \<Longrightarrow>
     ctr_received c = of_nat n \<and> ctr_rejected c = of_nat j \<and> j + owes_rejection w \<le> n \<and> loaded_before n j r"
proof (induction n j "(c, w, s, r)" arbitrary: c w s r rule: race_run.induct)
  case (arrive n j c s r len refused)
  then show ?case by (auto simp: add.commute intro: loaded_before_mono)
next
  case (reject n j c s r)
  then show ?case by (auto simp: add_rejected_def add.commute intro: loaded_before_mono)
next
  case (load n j c w s r)
  then show ?case using loaded_before_step by auto
qed (auto simp: Counters_default_def split: if_splits)

lemma of_nat_le_mono:
  assumes "j \<le> n" and "n < 2 ^ 64"
  shows "(of_nat j :: u64) \<le> of_nat n"
  using assms by (simp add: word_le_nat_alt unat_of_nat take_bit_nat_eq_self)

text \<open>The loads of \<open>counts\<close> without a step of another thread in between are \<open>counts\<close>.\<close>

lemma loads_are_counts:
  "load_step c (load_step c (load_step c (load_step c (load_step c LoadSent)))) =
     Loaded (counts \<lparr>io = e, authenticator = a, counters = c\<rparr>)"
  by (simp add: counts_def)

section \<open>Properties\<close>

text \<open>C35: With fewer than \<open>2 ^ 64\<close> datagrams the counters never show more rejected than
  received datagrams, at any point of any interleaving. A snapshot that \<open>counts\<close> takes while
  datagrams arrive can: it loads the received datagrams before the rejected ones.\<close>

theorem snapshot_can_overtake:
  "(\<forall>n j c w s r. race_run n j (c, w, s, r) \<and> n < 2 ^ 64 \<longrightarrow> ctr_rejected c \<le> ctr_received c) \<and>
   (\<exists>n j c w s p. race_run n j (c, w, s, Loaded p) \<and> received p < rejected p)"
proof
  show "\<forall>n j c w s r. race_run n j (c, w, s, r) \<and> n < 2 ^ 64 \<longrightarrow> ctr_rejected c \<le> ctr_received c"
    using race_invariant of_nat_le_mono by (metis add_leD1)
next
  have "race_run 0 0 (Counters_default, RecvIdle, SendIdle, LoadReceivedBytes 0 0 0)"
    using race_run.load [OF race_run.load [OF race_run.load [OF race_run.start]]]
    by (simp add: Counters_default_def)
  from race_run.load [OF race_run.load [OF race_run.reject [OF race_run.arrived
        [OF race_run.arrive [OF this, of 40 True], simplified]]]]
  show "\<exists>n j c w s p. race_run n j (c, w, s, Loaded p) \<and> received p < rejected p"
    by (force simp: Counters_default_def add_rejected_def)
qed

theorem snapshot_can_overtake_witness:
  "ctr_rejected Counters_default \<le> ctr_received Counters_default \<and>
   (\<exists>n j c w s p. race_run n j (c, w, s, Loaded p) \<and> received p < rejected p)"
  using snapshot_can_overtake race_run.start by (metis zero_less_numeral zero_less_power)

end
