(* ===== verification/Unit_Tests.thy ===== *)
theory Unit_Tests
  imports Auth_Cid Ping Blaster_Packet
begin

text \<open>
  The unit tests of \<open>src/auth.rs\<close>, \<open>src/lib.rs\<close> and \<open>src/bin/blaster.rs\<close>, translated as
  they are written, and what they show of the model: which pass for every cipher and random
  generator, and on which coincidences of truncated AES blocks the others depend. A test is a
  computation whose \<open>None\<close> is a panic: a failed assertion or a panic of the code under test.
\<close>

section \<open>Assertions and loops\<close>

definition assert_that :: "bool \<Rightarrow> unit option" where
  "assert_that b = (if b then Some () else None)"

fun for_each :: "'a list \<Rightarrow> ('a \<Rightarrow> 's \<Rightarrow> 's option) \<Rightarrow> 's \<Rightarrow> 's option" where
  "for_each [] body s = Some s"
| "for_each (x # xs) body s = do { s \<leftarrow> body x s; for_each xs body s }"

definition is_err :: "('e + 'a) option \<Rightarrow> bool option" where
  "is_err v = map_option (\<lambda>r. case r of Inl _ \<Rightarrow> True | Inr _ \<Rightarrow> False) v"

section \<open>Tests of the tokens\<close>

definition PEERS :: Peers where
  "PEERS = \<lparr>client = Ipv4Addr 10 0 0 1, server = Ipv4Addr 10 0 0 2\<rparr>"

definition tests_check :: "block_cipher \<Rightarrow> bytes \<Rightarrow> Direction \<Rightarrow> (AuthError + unit) option" where
  "tests_check aes token direction =
     (let (src, dst) = path direction PEERS in verify aes token direction src dst)"

definition minted_tokens_verify_on_their_own_path :: "'g rng \<Rightarrow> block_cipher \<Rightarrow> 'g \<Rightarrow> 'g option" where
  "minted_tokens_verify_on_their_own_path rng aes g =
     for_each [ClientToServer, ServerToClient] (\<lambda>direction g. do {
       (token, g) \<leftarrow> mint rng aes direction PEERS g;
       assert_that (length token = TOKEN_LEN);
       assert_that (tests_check aes token direction = Some (Ok ()));
       Some g
     }) g"

definition tokens_do_not_verify_for_the_reverse_direction :: "'g rng \<Rightarrow> block_cipher \<Rightarrow> 'g \<Rightarrow> 'g option" where
  "tokens_do_not_verify_for_the_reverse_direction rng aes g = do {
     (token, g) \<leftarrow> mint rng aes ClientToServer PEERS g;
     assert_that (tests_check aes token ServerToClient = Some (Err WrongDirection));
     Some g
   }"

definition tokens_are_bound_to_the_address_pair :: "'g rng \<Rightarrow> block_cipher \<Rightarrow> 'g \<Rightarrow> 'g option" where
  "tokens_are_bound_to_the_address_pair rng aes g = do {
     (token, g) \<leftarrow> mint rng aes ClientToServer PEERS g;
     let elsewhere = Ipv4Addr 192 0 2 9;
     assert_that (verify aes token ClientToServer elsewhere (server PEERS) = Some (Err BadTag));
     assert_that (verify aes token ClientToServer (client PEERS) elsewhere = Some (Err BadTag));
     assert_that (verify aes token ClientToServer (server PEERS) (client PEERS) = Some (Err BadTag));
     Some g
   }"

definition every_corrupted_byte_is_detected :: "'g rng \<Rightarrow> block_cipher \<Rightarrow> 'g \<Rightarrow> 'g option" where
  "every_corrupted_byte_is_detected rng aes g = do {
     (token, g) \<leftarrow> mint rng aes ClientToServer PEERS g;
     for_each [0..<TOKEN_LEN] (\<lambda>i g. do {
       b \<leftarrow> elem_get token i;
       let corrupted = token[i := b XOR 0x01];
       e \<leftarrow> is_err (tests_check aes corrupted ClientToServer);
       assert_that e;
       Some g
     }) g
   }"

definition tags_are_deterministic_and_nonce_dependent :: "block_cipher \<Rightarrow> unit option" where
  "tags_are_deterministic_and_nonce_dependent aes = do {
     let (src, dst) = path ClientToServer PEERS;
     let nonce = replicate NONCE_LEN 7;
     let k = key ClientToServer;
     t1 \<leftarrow> tag aes k nonce src dst;
     t2 \<leftarrow> tag aes k nonce src dst;
     assert_that (t1 = t2);
     t3 \<leftarrow> tag aes k (replicate NONCE_LEN 8) src dst;
     assert_that (t1 \<noteq> t3);
     t4 \<leftarrow> tag aes F_AB nonce src dst;
     t5 \<leftarrow> tag aes F_BA nonce src dst;
     assert_that (t4 \<noteq> t5)
   }"

definition malformed_tokens_are_rejected_rather_than_panicking ::
  "'g rng \<Rightarrow> block_cipher \<Rightarrow> 'g \<Rightarrow> 'g option" where
  "malformed_tokens_are_rejected_rather_than_panicking rng aes g = do {
     for_each [0, 1, TOKEN_LEN - 1, TOKEN_LEN + 1] (\<lambda>len u.
       assert_that (tests_check aes (replicate len 0) ClientToServer = Some (Err (BadLength len)))) ();
     (token, g) \<leftarrow> mint rng aes ClientToServer PEERS g;
     token \<leftarrow> copy_into token (fst SELECTOR_RANGE) (snd SELECTOR_RANGE) (be_bytes 2 (0xbeef :: u16));
     assert_that (tests_check aes token ClientToServer = Some (Err (UnknownSelector 0xbeef)));
     Some g
   }"

definition generated_cids_bind_the_peer_they_are_issued_for ::
  "(bytes \<Rightarrow> 'c) \<Rightarrow> ('c \<Rightarrow> bytes) \<Rightarrow> 'g rng \<Rightarrow> block_cipher \<Rightarrow> 'g \<Rightarrow> 'g option" where
  "generated_cids_bind_the_peer_they_are_issued_for cid_new cid_bytes rng aes g = do {
     let srv = Ipv4Addr 10 0 0 2;
     let alice = Ipv4Addr 10 0 0 1;
     let bob = Ipv4Addr 198 51 100 7;
     let generator = AuthCidGenerator_new ClientToServer srv;
     (for_alice, g) \<leftarrow> generate_cid_for cid_new rng aes generator \<lparr>ip = V4 alice, port = 4433\<rparr> None g;
     (for_bob, g) \<leftarrow> generate_cid_for cid_new rng aes generator \<lparr>ip = V4 bob, port = 4433\<rparr> None g;
     assert_that (verify aes (cid_bytes for_alice) ClientToServer alice srv = Some (Ok ()));
     assert_that (verify aes (cid_bytes for_bob) ClientToServer bob srv = Some (Ok ()));
     assert_that (verify aes (cid_bytes for_alice) ClientToServer bob srv = Some (Err BadTag));
     Some g
   }"

definition cids_generated_without_a_peer_address_never_authenticate ::
  "(bytes \<Rightarrow> 'c) \<Rightarrow> ('c \<Rightarrow> bytes) \<Rightarrow> 'g rng \<Rightarrow> block_cipher \<Rightarrow> 'g \<Rightarrow> 'g option" where
  "cids_generated_without_a_peer_address_never_authenticate cid_new cid_bytes rng aes g = do {
     let srv = Ipv4Addr 10 0 0 2;
     let clnt = Ipv4Addr 10 0 0 1;
     let generator = AuthCidGenerator_new ClientToServer srv;
     (blind, g) \<leftarrow> generate_cid cid_new rng aes generator g;
     assert_that (verify aes (cid_bytes blind) ClientToServer clnt srv = Some (Err BadTag));
     Some g
   }"

definition destination_cid_is_located_in_both_header_forms :: "'g rng \<Rightarrow> block_cipher \<Rightarrow> 'g \<Rightarrow> 'g option" where
  "destination_cid_is_located_in_both_header_forms rng aes g = do {
     (token, g) \<leftarrow> mint rng aes ClientToServer PEERS g;
     let long = [0xc0, 0x00, 0x00, 0x00, 0x01, of_nat TOKEN_LEN];
     let long = long @ token;
     let long = long @ replicate 32 0xaa;
     assert_that (destination_cid long = Some token);
     let short = [0x40];
     let short = short @ token;
     let short = short @ replicate 32 0xaa;
     assert_that (destination_cid short = Some token);
     Some g
   }"

definition truncated_datagrams_do_not_panic :: "unit option" where
  "truncated_datagrams_do_not_panic = do {
     assert_that (destination_cid [] = None);
     assert_that (destination_cid [0xc0, 0x00, 0x00, 0x00, 0x01, of_nat TOKEN_LEN, 0x00] = None);
     assert_that (destination_cid [0x40, 0x00] = None);
     assert_that (destination_cid [0xc0, 0x00, 0x00, 0x00, 0x01, 21] = None)
   }"

section \<open>Tests of the payload\<close>

definition ping_payload_carries_sequence_number :: "unit option" where
  "ping_payload_carries_sequence_number = do {
     payload \<leftarrow> ping_payload 0x0102030405060708 16;
     assert_that (length payload = 16);
     first \<leftarrow> slice_get payload 0 8;
     assert_that (first = [1, 2, 3, 4, 5, 6, 7, 8])
   }"

definition ping_payload_handles_sizes_below_the_header :: "unit option" where
  "ping_payload_handles_sizes_below_the_header = do {
     p0 \<leftarrow> ping_payload (- 1) 0;
     assert_that (p0 = []);
     p3 \<leftarrow> ping_payload (- 1) 3;
     assert_that (p3 = [0xff, 0xff, 0xff])
   }"

section \<open>Tests of the blaster\<close>

text \<open>\<open>Result::expect\<close> on the template's constructor.\<close>

definition expect_template :: "nat \<Rightarrow> InitialTemplate option" where
  "expect_template sz =
     (case InitialTemplate_new sz of Some (Inr t) \<Rightarrow> Some t | _ \<Rightarrow> None)"

text \<open>
  A pointer into a buffer is the number of bytes before it: the slice that \<open>destination_cid\<close>
  returns points to the start of the range it takes of the datagram.
\<close>

definition destination_cid_ptr :: "bytes \<Rightarrow> nat option" where
  "destination_cid_ptr datagram = map_option fst (destination_cid_range datagram)"

definition the_template_is_a_parseable_quic_initial :: "unit option" where
  "the_template_is_a_parseable_quic_initial = do {
     template \<leftarrow> expect_template MIN_INITIAL_DATAGRAM;
     assert_that (length (template_bytes template) = MIN_INITIAL_DATAGRAM);
     dcid \<leftarrow> destination_cid (template_bytes template);
     assert_that (length dcid = TOKEN_LEN);
     slice_get (template_bytes template) (dcid_offset template) (length (template_bytes template));
     assert_that (destination_cid_ptr (template_bytes template) = Some (dcid_offset template))
   }"

definition randomizing_rewrites_only_the_connection_id :: "endianness \<Rightarrow> unit option" where
  "randomizing_rewrites_only_the_connection_id ne = do {
     template \<leftarrow> expect_template MIN_INITIAL_DATAGRAM;
     let original = template_bytes template;
     (template, rng) \<leftarrow> randomize_dcid ne template (SplitMix64 1);
     let offset = dcid_offset template;
     let end_off = dcid_offset template + TOKEN_LEN;
     new_cid \<leftarrow> slice_get (template_bytes template) offset end_off;
     old_cid \<leftarrow> slice_get original offset end_off;
     assert_that (new_cid \<noteq> old_cid);
     new_head \<leftarrow> slice_get (template_bytes template) 0 offset;
     old_head \<leftarrow> slice_get original 0 offset;
     assert_that (new_head = old_head);
     new_tail \<leftarrow> slice_get (template_bytes template) end_off (length (template_bytes template));
     old_tail \<leftarrow> slice_get original end_off (length original);
     assert_that (new_tail = old_tail)
   }"

definition generated_connection_ids_do_not_repeat :: "endianness \<Rightarrow> unit option" where
  "generated_connection_ids_do_not_repeat ne = do {
     template \<leftarrow> expect_template MIN_INITIAL_DATAGRAM;
     for_each [0..<10000] (\<lambda>_ (template, rng, seen). do {
       (template, rng) \<leftarrow> randomize_dcid ne template rng;
       dcid \<leftarrow> slice_get (template_bytes template) (dcid_offset template) (dcid_offset template + TOKEN_LEN);
       assert_that (dcid \<notin> set seen);
       Some (template, rng, dcid # seen)
     }) (template, SplitMix64 42, []);
     Some ()
   }"

definition undersized_datagrams_are_refused :: "unit option" where
  "undersized_datagrams_are_refused = do {
     e \<leftarrow> is_err (InitialTemplate_new (MIN_INITIAL_DATAGRAM - 1));
     assert_that e
   }"

section \<open>Lemmas\<close>

lemma assert_that_bind [simp]: "(assert_that b \<bind> f) = (if b then f () else None)"
  by (simp add: assert_that_def)

lemma assert_that_Some_iff [simp]: "assert_that b \<noteq> None \<longleftrightarrow> b" "assert_that b = Some u \<longleftrightarrow> b"
  by (simp_all add: assert_that_def)

lemma for_each_assert: "for_each xs (\<lambda>x s. if P x then Some s else None) s = (if \<forall>x \<in> set xs. P x then Some s else None)"
  by (induction xs) auto

lemma for_each_cong [fundef_cong]:
  "xs = ys \<Longrightarrow> (\<And>y s. y \<in> set ys \<Longrightarrow> f y s = g y s) \<Longrightarrow> s = t \<Longrightarrow> for_each xs f s = for_each ys g t"
  by (induction xs arbitrary: ys s t) (auto cong: Option.bind_cong)

lemma PEERS_path [simp]:
  "path ClientToServer PEERS = (Ipv4Addr 10 0 0 1, Ipv4Addr 10 0 0 2)"
  "path ServerToClient PEERS = (Ipv4Addr 10 0 0 2, Ipv4Addr 10 0 0 1)"
  "client PEERS = Ipv4Addr 10 0 0 1" "server PEERS = Ipv4Addr 10 0 0 2"
  by (simp_all add: PEERS_def)

lemma minted_passes: "minted_tokens_verify_on_their_own_path rng aes g \<noteq> None"
  by (simp add: minted_tokens_verify_on_their_own_path_def mint_eq tests_check_def verify_token_format consts_simps)

lemma reverse_passes: "tokens_do_not_verify_for_the_reverse_direction rng aes g \<noteq> None"
  by (simp add: tokens_do_not_verify_for_the_reverse_direction_def mint_eq tests_check_def verify_other_direction)

lemma copy_selector:
  "length n = 8 \<Longrightarrow> copy_into (token_format aes d n s r) 0 2 sel =
     (if length sel = 2 then Some (sel @ n @ trunc80 aes (key d) (tag_message n s r)) else None)"
  by (simp add: copy_into_def token_format_def)

lemma malformed_passes: "malformed_tokens_are_rejected_rather_than_panicking rng aes g \<noteq> None"
proof -
  have "verify aes (be_bytes 2 (0xbeef :: u16) @ drawn_nonce rng g @ trunc80 aes F_AB (tag_message (drawn_nonce rng g) s r))
      ClientToServer s r = Some (Err (UnknownSelector 0xbeef))" for s r
    by (simp add: verify_eq_ref verify_ref_def from_be_bytes_be_bytes)
  then show ?thesis
    by (simp add: malformed_tokens_are_rejected_rather_than_panicking_def mint_eq tests_check_def
        consts_simps copy_selector verify_eq_ref [of aes "[]"] verify_eq_ref [of aes "replicate n 0" for n]
        verify_eq_ref [of aes "[0]"] verify_ref_def)
qed

lemma located_passes: "destination_cid_is_located_in_both_header_forms rng aes g \<noteq> None"
proof -
  let ?t = "token_format aes ClientToServer (drawn_nonce rng g) (Ipv4Addr 10 0 0 1) (Ipv4Addr 10 0 0 2)"
  have "destination_cid (long_header 0xc0 [0, 0, 0, 1] ?t (replicate 32 0xaa)) = Some ?t"
    by (rule destination_cid_long) (simp_all add: is_long_def)
  moreover have "destination_cid (short_header 0x40 ?t (replicate 32 0xaa)) = Some ?t"
    by (rule destination_cid_short) (simp_all add: is_long_def)
  ultimately show ?thesis
    by (simp add: destination_cid_is_located_in_both_header_forms_def mint_eq long_header_def
        short_header_def consts_simps)
qed

lemma bound_passes_iff:
  "tokens_are_bound_to_the_address_pair rng aes g \<noteq> None \<longleftrightarrow>
     (let T = \<lambda>s r. trunc80 aes F_AB (tag_message (drawn_nonce rng g) s r) in
        T (Ipv4Addr 192 0 2 9) (Ipv4Addr 10 0 0 2) \<noteq> T (Ipv4Addr 10 0 0 1) (Ipv4Addr 10 0 0 2) \<and>
        T (Ipv4Addr 10 0 0 1) (Ipv4Addr 192 0 2 9) \<noteq> T (Ipv4Addr 10 0 0 1) (Ipv4Addr 10 0 0 2) \<and>
        T (Ipv4Addr 10 0 0 2) (Ipv4Addr 10 0 0 1) \<noteq> T (Ipv4Addr 10 0 0 1) (Ipv4Addr 10 0 0 2))"
  by (simp add: tokens_are_bound_to_the_address_pair_def mint_eq verify_token_format Let_def)

lemma tags_passes_iff:
  "tags_are_deterministic_and_nonce_dependent aes \<noteq> None \<longleftrightarrow>
     (let T = \<lambda>k b. trunc80 aes k (tag_message (replicate 8 b) (Ipv4Addr 10 0 0 1) (Ipv4Addr 10 0 0 2)) in
        T F_AB 7 \<noteq> T F_AB 8 \<and> T F_AB 7 \<noteq> T F_BA 7)"
  by (simp add: tags_are_deterministic_and_nonce_dependent_def tag_eq consts_simps Let_def)

lemma generated_passes_iff:
  assumes "cid_faithful cid_new cid_bytes"
  shows "generated_cids_bind_the_peer_they_are_issued_for cid_new cid_bytes rng aes g \<noteq> None \<longleftrightarrow>
     (let T = \<lambda>s. trunc80 aes F_AB (tag_message (drawn_nonce rng g) s (Ipv4Addr 10 0 0 2)) in
        T (Ipv4Addr 198 51 100 7) \<noteq> T (Ipv4Addr 10 0 0 1))"
  using assms
  by (simp add: generated_cids_bind_the_peer_they_are_issued_for_def generate_cid_for_eq mint_between_eq
      AuthCidGenerator_new_def cid_faithful_def verify_token_format Let_def)

lemma blind_passes_iff:
  assumes "cid_faithful cid_new cid_bytes"
  shows "cids_generated_without_a_peer_address_never_authenticate cid_new cid_bytes rng aes g \<noteq> None \<longleftrightarrow>
     (let T = \<lambda>s. trunc80 aes F_AB (tag_message (drawn_nonce rng g) s (Ipv4Addr 10 0 0 2)) in
        T (Ipv4Addr 10 0 0 1) \<noteq> T UNSPECIFIED)"
  using assms
  by (simp add: cids_generated_without_a_peer_address_never_authenticate_def generate_cid_def mint_between_eq
      AuthCidGenerator_new_def cid_faithful_def verify_token_format Let_def)

lemma is_err_verify: "is_err (verify aes t d s r) = Some (verify aes t d s r \<noteq> Some (Ok ()))"
  by (simp add: is_err_def verify_eq_ref split: sum.split)

lemma xor_one_neq: "b XOR 1 \<noteq> (b :: u8)"
proof
  assume "b XOR 1 = b"
  then have "b XOR (b XOR 1) = 0" by simp
  then show False by (simp add: xor.assoc [symmetric])
qed

lemma corrupted_iff:
  assumes "length n = 8" and "i < 20"
  shows "verify aes ((token_format aes d n s r)[i := token_format aes d n s r ! i XOR 1]) d s r = Some (Ok ()) \<longleftrightarrow>
    2 \<le> i \<and> i < 10 \<and>
    trunc80 aes (key d) (tag_message (n[i - 2 := n ! (i - 2) XOR 1]) s r) = trunc80 aes (key d) (tag_message n s r)"
proof -
  have "token_format aes d n s r ! i = n ! (i - 2)" if "2 \<le> i" "i < 10"
    using that assms by (auto simp: token_format_def nth_append)
  then show ?thesis
    using assms corrupted_accepted [OF assms(1) refl assms(2) xor_one_neq, of aes d s r]
      corrupted_nonce_accepted [OF assms(1), of i aes d "n ! (i - 2) XOR 1" s r]
    by auto
qed

lemma corrupted_passes_iff:
  "every_corrupted_byte_is_detected rng aes g \<noteq> None \<longleftrightarrow>
     (let n = drawn_nonce rng g;
          T = \<lambda>n. trunc80 aes F_AB (tag_message n (Ipv4Addr 10 0 0 1) (Ipv4Addr 10 0 0 2)) in
        \<forall>i < 8. T (n[i := n ! i XOR 1]) \<noteq> T n)"
proof -
  let ?n = "drawn_nonce rng g"
  let ?T = "\<lambda>n. trunc80 aes F_AB (tag_message n (Ipv4Addr 10 0 0 1) (Ipv4Addr 10 0 0 2))"
  have "every_corrupted_byte_is_detected rng aes g \<noteq> None \<longleftrightarrow>
    (\<forall>i < 20. \<not> (2 \<le> i \<and> i < 10 \<and> ?T (?n[i - 2 := ?n ! (i - 2) XOR 1]) = ?T ?n))"
  proof -
    let ?t = "token_format aes ClientToServer ?n (Ipv4Addr 10 0 0 1) (Ipv4Addr 10 0 0 2)"
    have "for_each [0..<20] (\<lambda>i g. do {
         b \<leftarrow> elem_get ?t i;
         e \<leftarrow> is_err (tests_check aes (?t[i := b XOR 1]) ClientToServer);
         assert_that e;
         Some g }) g' =
       for_each [0..<20] (\<lambda>i g.
         if \<not> (2 \<le> i \<and> i < 10 \<and> ?T (?n[i - 2 := ?n ! (i - 2) XOR 1]) = ?T ?n) then Some g else None) g'" for g' :: 'a
      by (rule for_each_cong) (simp_all add: elem_get_def tests_check_def is_err_verify corrupted_iff)
    then show ?thesis
      by (simp add: every_corrupted_byte_is_detected_def mint_eq consts_simps for_each_assert atLeast0LessThan Ball_def Bex_def)
  qed
  also have "\<dots> \<longleftrightarrow> (\<forall>i < 8. ?T (?n[i := ?n ! i XOR 1]) \<noteq> ?T ?n)"
  proof (intro iffI allI impI)
    fix i :: nat
    assume *: "\<forall>i < 20. \<not> (2 \<le> i \<and> i < 10 \<and> ?T (?n[i - 2 := ?n ! (i - 2) XOR 1]) = ?T ?n)" and "i < 8"
    then show "?T (?n[i := ?n ! i XOR 1]) \<noteq> ?T ?n" using * [rule_format, of "i + 2"] by simp
  next
    fix i :: nat
    assume *: "\<forall>i < 8. ?T (?n[i := ?n ! i XOR 1]) \<noteq> ?T ?n" and "i < 20"
    then show "\<not> (2 \<le> i \<and> i < 10 \<and> ?T (?n[i - 2 := ?n ! (i - 2) XOR 1]) = ?T ?n)"
      using * [rule_format, of "i - 2"] by auto
  qed
  finally show ?thesis by (simp add: Let_def)
qed

lemma initial_packet_slices:
  assumes "length d = 20"
  shows "slice_get (initial_packet sz d) 6 26 = Some d"
    and "slice_get (initial_packet sz d) 0 6 = Some [0xc3, 0, 0, 0, 1, 20]"
    and "54 \<le> sz \<Longrightarrow> slice_get (initial_packet sz d) 26 sz = Some (drop 26 (initial_packet sz (replicate 20 0)))"
  using assms by (simp_all add: initial_packet_def long_header_def slice_get_def)

lemma expect_template_eq:
  "expect_template 1200 = Some \<lparr>template_bytes = initial_packet 1200 (replicate 20 0), dcid_offset = 6\<rparr>"
  by (simp add: expect_template_def InitialTemplate_new_eq)

lemma template_test_passes: "the_template_is_a_parseable_quic_initial \<noteq> None"
proof -
  let ?p = "initial_packet 1200 (replicate 20 0)"
  have "destination_cid_ptr ?p = Some 6"
    by (simp add: destination_cid_ptr_def destination_cid_range_def initial_packet_def long_header_def
        elem_get_def consts_simps)
  moreover have "slice_get ?p 6 1200 \<noteq> None" by (simp add: slice_get_def length_initial_packet)
  ultimately show ?thesis
    by (auto simp: the_template_is_a_parseable_quic_initial_def expect_template_eq consts_simps
        length_initial_packet destination_cid_initial_packet)
qed

lemma randomizing_passes: "randomizing_rewrites_only_the_connection_id ne \<noteq> None"
proof -
  have "dcid_of LittleEndian 1 0 \<noteq> replicate 20 0" "dcid_of BigEndian 1 0 \<noteq> replicate 20 0"
    by code_simp+
  then have "dcid_of ne 1 0 \<noteq> replicate 20 0" by (cases ne) simp_all
  then show ?thesis
    using randomize_dcid_nth [of "replicate 20 0" ne 1200 1 0]
    by (simp add: randomizing_rewrites_only_the_connection_id_def expect_template_eq rng_at_0 consts_simps
        initial_packet_slices length_initial_packet)
qed

text \<open>After \<open>k\<close> turns of the loop over the IDs, those seen are the first \<open>k\<close>.\<close>

lemma not_repeat_loop:
  assumes "k + length xs \<le> 2 ^ 64" and "length d = 20"
  shows "for_each xs (\<lambda>_ (template, rng, seen). do {
       (template, rng) \<leftarrow> randomize_dcid ne template rng;
       dcid \<leftarrow> slice_get (template_bytes template) (dcid_offset template) (dcid_offset template + 20);
       assert_that (dcid \<notin> set seen);
       Some (template, rng, dcid # seen)
     }) (\<lparr>template_bytes = initial_packet sz d, dcid_offset = 6\<rparr>, rng_at s (3 * k),
         rev (map (\<lambda>i. dcid_of ne s (3 * i)) [0..<k])) \<noteq> None"
  using assms
proof (induction xs arbitrary: k d)
  case (Cons x xs)
  have "dcid_of ne s (3 * k) \<notin> (\<lambda>i. dcid_of ne s (3 * i)) ` {0..<k}"
  proof
    assume "dcid_of ne s (3 * k) \<in> (\<lambda>i. dcid_of ne s (3 * i)) ` {0..<k}"
    then obtain i where "i < k" "dcid_of ne s (3 * k) = dcid_of ne s (3 * i)" by auto
    then show False using dcid_of_inject [of ne s k i] Cons.prems(1) by simp
  qed
  then show ?case
    using Cons.IH [of "Suc k" "dcid_of ne s (3 * k)"] Cons.prems
    by (simp add: randomize_dcid_nth initial_packet_slices add.commute)
qed simp

lemma not_repeat_passes: "generated_connection_ids_do_not_repeat ne \<noteq> None"
proof -
  have unit: "(m \<bind> (\<lambda>_. Some ())) \<noteq> None \<longleftrightarrow> m \<noteq> None" for m :: "'x option"
    by (cases m) simp_all
  show ?thesis
    using not_repeat_loop [of 0 "[0..<10000]" "replicate 20 0" ne 1200 42]
    by (simp only: generated_connection_ids_do_not_repeat_def expect_template_eq rng_at_0 consts_simps unit
        Option.bind.bind_lunit mult_0_right upt_0 list.map rev.simps length_upt length_replicate) simp
qed

lemma fixed_input_tests_pass:
  "truncated_datagrams_do_not_panic \<noteq> None" "ping_payload_carries_sequence_number \<noteq> None"
  "ping_payload_handles_sizes_below_the_header \<noteq> None"
  by code_simp+

lemma undersized_passes: "undersized_datagrams_are_refused \<noteq> None"
  by (simp add: undersized_datagrams_are_refused_def is_err_def InitialTemplate_new_eq consts_simps)

end
