(* ===== verification/Spec2Isabelle.thy ===== *)
theory Spec2Isabelle
  imports Client Blaster_Threads Network Socket_Send Socket_Counts Unit_Tests
begin

text \<open>
  Verification of pktauth, a QUIC echo service that authenticates every UDP datagram before the
  QUIC layer sees it. The connection ID of a packet is a 20-byte token: a 2-byte direction
  selector, an 8-byte nonce and the 80-bit truncation of AES-128 over the nonce and the IPv4
  source and destination. An endpoint issues such tokens as the connection IDs its peer has
  to use, and its socket drops every datagram whose destination connection ID is not a token
  for the path it arrived on.

  \<^bold>\<open>How the parts interact.\<close> \<open>src/auth.rs\<close> mints and verifies tokens, finds the connection ID
  in a datagram and generates connection IDs. \<open>src/socket.rs\<close> is the UDP socket Quinn does its
  I/O through: \<open>poll_recv\<close> filters with an \<open>Authenticator\<close>, \<open>poll_send\<close> writes
  datagrams, and both keep counters. \<open>src/lib.rs\<close> builds the configurations, mounts a socket
  into Quinn with the matching generator of connection IDs, and holds the ping protocol.
  \<open>src/bin/server.rs\<close> and \<open>src/bin/client.rs\<close> are the two programs, and
  \<open>src/bin/blaster.rs\<close> floods an endpoint with Initial packets that carry random IDs.

  \<^bold>\<open>Conventions.\<close> Machine integers are words of their width and wrap; \<open>usize\<close> lengths are
  natural numbers. \<open>Result\<close> is a sum with the error on the left, a panic is \<open>None\<close> (or a
  constructor of the result type where a loop adds its own \<open>None\<close>). A source loop is \<open>iterate\<close>
  over its body (theory \<open>Prelude\<close>), which needs no fuel: its \<open>None\<close> is a loop that does not
  return, so every claim that a loop returns is proved from a measure on the environment, and
  divergence can be stated too. Code outside the repository is a parameter: AES-128 (\<open>aes\<close>),
  the random generator (\<open>rng\<close>), Quinn's connection ID type (\<open>cid_new\<close>), the operating
  system and Tokio (\<open>udp_ops\<close>, \<open>flood_ops\<close>, \<open>main_ops\<close>, \<open>host_ops\<close>,
  \<open>dial_ops\<close>), Quinn's streams (\<open>quic_ops\<close>) and rcgen, rustls and Quinn's configurations
  (\<open>tls_ops\<close>), each over an environment state. What is relied on of them is a named
  hypothesis: \<open>cid_faithful\<close>, \<open>recv_contract\<close>, \<open>finite_backlog\<close>, \<open>finite_retries\<close>,
  \<open>reliable\<close>, \<open>fresh_stream\<close>, \<open>undisturbed\<close>, \<open>flag_clears\<close>, \<open>keeps_time\<close>, \<open>schedule_within\<close>,
  \<open>bound_source_kept\<close>. The block cipher has
  none: what a theorem says about forgery is stated as the coincidence of two truncated blocks.

  \<^bold>\<open>Theories.\<close>

  \<^item> \<open>Prelude\<close>: types, slices with their panics, byte orders, \<open>iterate\<close> with its rules for
    partial correctness, termination and divergence, the locale \<open>codec\<close> of fixed-width
    encodings, interpreted for big-endian words, IPv4 addresses and direction selectors, and the
    locales \<open>transition_system\<close> and \<open>stopping_system\<close> of programs given by their steps.
  \<^item> \<open>Net_Addr\<close>: the standard library's addresses.
  \<^item> \<open>Auth_Token\<close> (\<open>auth.rs\<close>: \<open>tag\<close>, \<open>assemble\<close>, \<open>mint\<close>, \<open>verify\<close>): the token format.
    Verification equals a reference definition, accepts exactly the assembled tokens, \<open>2 ^ 64\<close>
    per path, and detects a wrong direction, path or corrupted byte. The locale
    \<open>token_scheme\<close> is what the other components rely on.
  \<^item> \<open>Auth_Filter\<close> (\<open>destination_cid\<close>, \<open>Authenticator\<close>): the connection ID is found
    in exactly the two header forms, and the check passes exactly the datagrams that carry a
    token for their path (locale \<open>packet_filter\<close>).
  \<^item> \<open>Auth_Cid\<close> (\<open>AuthCidGenerator\<close>, \<open>initial_dst_cid_provider\<close>): issued IDs
    authenticate their own peer and no other (locale \<open>cid_issuer\<close>).
  \<^item> \<open>Socket_Base\<close>, \<open>Socket_Recv\<close>, \<open>Socket_Types\<close>, \<open>Socket_Send\<close>, \<open>Socket_Counts\<close>
    (\<open>socket.rs\<close>): the receive path returns and hands over the admitted datagrams, in order, with
    exact counters; the one datagram it can lose is one that is admitted when the metadata records
    are used up before the buffers. For any buffers and metadata what it hands over is well formed.
    The send path returns, keeps its readiness protocol, sends a single datagram at most once, and
    of a batch a sequence of prefixes, one more for each time the batch is interrupted. Then the
    counters as seen by a concurrent snapshot.
  \<^item> \<open>Ping\<close> (\<open>lib.rs\<close>: \<open>ping_payload\<close>, \<open>ping\<close>, \<open>echo_stream\<close> and the server's
    loops): a ping against the echo server over reliable streams returns its own payload; the
    accept loops serve everything they accept (locale \<open>accept_loop\<close>).
  \<^item> \<open>Endpoint\<close> (\<open>lib.rs\<close>: configurations and endpoints), \<open>Server\<close> and \<open>Client\<close>
    (the programs): argument checks, set-up, the ping loop and the summary; the server's
    \<open>select!\<close> is \<open>run_echo_server\<close> turn by turn until the interrupt.
  \<^item> \<open>Blaster_Packet\<close> and \<open>Blaster\<close> (\<open>blaster.rs\<close>): the template is an Initial of the
    requested size, randomising rewrites only the connection ID, the generator does not repeat,
    and a thread sends batches of fresh packets until it is stopped. The threads together keep to
    the rate at the heads of their loops.
  \<^item> \<open>Blaster_Threads\<close> (\<open>blaster.rs\<close>: \<open>blast\<close>, \<open>main\<close>, \<open>report\<close>): the threads, the reporter and
    \<open>main\<close> as one step relation over the shared flag and counters, with one step per atomic access,
    send and join. The summary is exact, the report never wraps, and the program stops within a
    bound of 198 steps per thread once \<open>main\<close> has cleared the flag; a turn of \<open>blast\<close> and the lines
    of \<open>report\<close> are runs of these steps.
  \<^item> \<open>Network\<close>: a server's issuing operations and its socket in any order on a hostile network.
    Its filter refines a table of the issued tokens, up to forged tags (locale \<open>stamping\<close>), and it
    drops and counts the blaster's flood.
  \<^item> \<open>Unit_Tests\<close>: the unit tests of the three modules as computations, each with a lemma on when
    it passes; some tests that expect a refusal depend on two tags being different.
  \<^item> This theory: the life of an endpoint's socket, what a server that came up hands over, and the
    two programs together. The packets of a connection between a server and a client with a
    concrete local address pass both filters; those of a client on the wildcard are dropped.

  \<^bold>\<open>What the development shows to be unintended.\<close> The ID that is meant never to authenticate
  does from the source 0.0.0.0; an interrupted batch is sent again from its start; a flood of
  refused datagrams keeps \<open>poll_recv\<close> from returning; a template size from 16434 on panics; a
  low packet rate is exceeded; the client accepts a wildcard address and is then dropped by the server; the summary divides by
  zero after \<open>2 ^ 32\<close> pings; and a snapshot of the counters can show more rejected than
  received datagrams.

  \<^bold>\<open>Not modelled.\<close> Printing and text formatting; floating point, which is a parameter where a
  branch depends on it (the blaster's schedule) or a result contains it (the loss percentage);
  the scheduler's interleaving of the tasks that the echo server spawns; reorderings of relaxed
  atomics beyond an interleaving; wakers, which are part of the environment; the integration tests
  of \<open>src/tests/echo.rs\<close>, which run both endpoints over real sockets; the scripts and the figures.
\<close>

section \<open>The two programs together\<close>

text \<open>The initial destination ID is a token for the client-to-server path of the peers.\<close>

lemma initial_dst_cid_total:
  "\<exists>t n g'. initial_dst_cid_provider cid_new rng aes peers g = Some (cid_new t, g') \<and> length t = 20 \<and>
     assemble aes ClientToServer n (client peers) (server peers) = Some t"
proof -
  obtain n t g' where "mint_between rng aes ClientToServer (client peers) (server peers) g = Some (t, g')"
    and n: "assemble aes ClientToServer n (client peers) (server peers) = Some t"
    using mint_between_total by metis
  then show ?thesis
    using tok.accepted_length [OF tok.issued_accepted [OF n]]
    by (auto simp: initial_dst_cid_provider_def mint_def)
qed

lemma generated_cid_accepted:
  assumes "cid_faithful cid_new cid_bytes"
  shows "\<exists>cid g'. generate_cid_for cid_new rng aes (AuthCidGenerator_new d local) \<lparr>ip = V4 peer, port = prt\<rparr> hint g =
      Some (cid, g') \<and>
    (\<forall>dg. addressed_to (cid_bytes cid) dg \<longrightarrow>
       check aes (Authenticator_new d local) dg (V4 peer) = Some (Ok ()))"
proof -
  obtain t n g' where "generate_cid_for cid_new rng aes (AuthCidGenerator_new d local)
      \<lparr>ip = V4 peer, port = prt\<rparr> hint g = Some (cid_new t, g')"
    and len: "length t = 20" and n: "assemble aes d n peer local = Some t"
    using generate_cid_for_total [of cid_new rng aes "AuthCidGenerator_new d local" "\<lparr>ip = V4 peer, port = prt\<rparr>" hint g]
    by (auto simp: AuthCidGenerator_new_def)
  then show ?thesis
    using assms tok.issued_accepted [OF n]
    by (auto simp: cid_faithful_def check_addressed Authenticator_new_def)
qed

section \<open>The life of a socket\<close>

text \<open>
  What can happen to the socket of an endpoint that is up: the network moves on, Quinn polls for
  datagrams with any buffers, Quinn sends. The state is the list of the datagrams handed over so
  far and the socket.
\<close>

type_synonym 'e socket_life = "(bytes \<times> SocketAddr) list \<times> 'e Inner"

inductive socket_step ::
  "('e, 'f) udp_ops \<Rightarrow> block_cipher \<Rightarrow> 'm RecvMeta_scheme \<Rightarrow> 'e socket_life \<Rightarrow> 'e socket_life \<Rightarrow> bool"
  for ops aes dflt where
  moved: "socket_step ops aes dflt (ds, inner) (ds, inner\<lparr>io := e\<rparr>)"
| polled: "poll_recv ops aes dflt (inner, bufs, meta) = Some (res, inner', bufs', meta') \<Longrightarrow>
    socket_step ops aes dflt (ds, inner) (ds @ slots bufs' meta' 0 (delivered_count res), inner')"
| transmitted: "try_send ops transmit inner = Some (r, inner') \<Longrightarrow>
    socket_step ops aes dflt (ds, inner) (ds, inner')"

definition socket_inv :: "block_cipher \<Rightarrow> Authenticator option \<Rightarrow> u64 \<Rightarrow> 'e socket_life \<Rightarrow> bool" where
  "socket_inv aes auth n st \<longleftrightarrow>
     (case st of (ds, inner) \<Rightarrow>
        authenticator inner = auth \<and> (\<forall>p \<in> set ds. admitted aes auth p) \<and>
        (auth = None \<longrightarrow> rejected (counts inner) = n))"

lemma polled_admitted:
  assumes "recv_contract ops" and "poll_recv ops aes dflt (inner, bufs, meta) = Some (res, inner', bufs', meta')"
  shows "authenticator inner' = authenticator inner \<and>
    (\<forall>p \<in> set (slots bufs' meta' 0 (delivered_count res)). admitted aes (authenticator inner) p)"
proof -
  obtain filled where typed: "recv_typed aes (authenticator inner) bufs meta (inner', bufs', meta', filled)"
    and n: "\<And>n. res = RecvPoll (Ready (Ok n)) \<Longrightarrow> filled = n"
    using poll_recv_typed [OF assms refl] by (auto simp: recv_result_typed_def)
  have "delivered_count res \<le> filled"
    using n by (cases res rule: delivered_count.cases) auto
  then show ?thesis using typed by (auto simp: slots_def recv_typed_def slot_ok_def)
qed

lemma socket_inv_step:
  assumes "socket_step ops aes dflt st st'" and "recv_contract ops" and "socket_inv aes auth n st"
  shows "socket_inv aes auth n st'"
  using assms(1)
proof (cases rule: socket_step.cases)
  case (moved ds inner e)
  then show ?thesis using assms(3) by (simp add: socket_inv_def counts_def)
next
  case (polled inner bufs meta res inner' bufs' meta' ds)
  then show ?thesis
    using assms(3) polled_admitted [OF assms(2) polled(3)]
      without_authenticator_nothing_is_rejected [OF assms(2) _ polled(3)]
    by (auto simp: socket_inv_def)
next
  case (transmitted transmit inner r inner' ds)
  then show ?thesis
    using assms(3) try_send_link [OF transmitted(3)]
    by (auto simp: socket_inv_def send_link_def sent_counters_def counts_def)
qed

interpretation life: transition_system "socket_step ops aes dflt" "([], inner)"
  "\<lambda>st. recv_contract ops \<longrightarrow> socket_inv aes (authenticator inner) (rejected (counts inner)) st"
  for ops :: "('e, 'f) udp_ops" and aes and dflt :: "'m RecvMeta_scheme" and inner
proof
  show "recv_contract ops \<longrightarrow> socket_inv aes (authenticator inner) (rejected (counts inner)) ([], inner)"
    by (simp add: socket_inv_def)
qed (use socket_inv_step in blast)

text \<open>A server's socket in any run of its life.\<close>

lemma server_socket_life:
  assumes up: "server_setup tls host args ps e = (Some (Ok ep), ps', e')" and "ip (listen args) = V4 a"
    and "recv_contract (udp host)" and run: "(socket_step (udp host) aes dflt)\<^sup>*\<^sup>* ([], ep_socket ep) (ds, inner)"
  shows "if no_dcid_validation args then rejected (counts inner) = 0
    else \<forall>(dg, addr) \<in> set ds. check aes (Authenticator_new ClientToServer a) dg (ip addr) = Some (Ok ())"
proof -
  have "authenticator (ep_socket ep) =
      (if no_dcid_validation args then None else Some (Authenticator_new ClientToServer a))"
    "counters (ep_socket ep) = Counters_default"
    using server_setup_Ok [OF up] assms(2) by (metis IpAddr.inject(1))+
  moreover have "socket_inv aes (authenticator (ep_socket ep)) (rejected (counts (ep_socket ep))) (ds, inner)"
    using life.reachable_invar [OF run] assms(3) by blast
  ultimately show ?thesis
    by (fastforce simp: socket_inv_def admitted_def check_Ok_iff counts_def Counters_default_def)
qed

section \<open>Source addresses\<close>

text \<open>
  What the operating system promises of source addresses: the datagrams of a socket bound to a
  concrete address carry that address; only for the wildcard does the system choose one.
  \<open>src_of\<close> maps the address a socket is bound to to the source of its datagrams.
\<close>

definition bound_source_kept :: "(Ipv4Addr \<Rightarrow> Ipv4Addr) \<Rightarrow> bool" where
  "bound_source_kept src_of \<longleftrightarrow> (\<forall>a. a \<noteq> UNSPECIFIED \<longrightarrow> src_of a = a)"

section \<open>Properties\<close>

text \<open>C6: When a validating server and a client with a concrete local address, whose server
  address is the server's, come up, and the system sends a socket's datagrams from the address it is
  bound to, the packets of their connection pass both filters: the first destination ID the client
  picks, and every ID the server's endpoint generates for the source it sees the client at,
  authenticate the client's datagrams at the server's socket, and every ID the client's endpoint
  generates for the source it sees the server at authenticates the server's datagrams at the
  client's socket.\<close>

theorem connection_passes_both_filters:
  assumes "server_setup tls host sargs ps e = (Some (Ok sep), ps', e')"
    and "client_setup ctls chost cid_new rng aes cargs cps ce = (Some (Ok cep), cps', ce')"
    and "\<not> no_dcid_validation sargs" and "ip (server_addr cargs) = ip (listen sargs)"
    and "local_ip cargs \<noteq> UNSPECIFIED" and "bound_source_kept src_of"
    and "cid_faithful cid_new cid_bytes"
  shows "\<exists>sauth cauth sip cfg provider cid g1 cid' g2 cid'' g3.
    authenticator (ep_socket sep) = Some sauth \<and> authenticator (ep_socket cep) = Some cauth \<and>
    ip (listen sargs) = V4 sip \<and>
    ep_default_client cep = Some cfg \<and> dst_cid_provider cfg = Some provider \<and> provider g = Some (cid, g1) \<and>
    (\<forall>dg. addressed_to (cid_bytes cid) dg \<longrightarrow> check aes sauth dg (V4 (src_of (local_ip cargs))) = Some (Ok ())) \<and>
    generate_cid_for cid_new rng aes (cid_generator (ep_config sep) ()) 
      \<lparr>ip = V4 (src_of (local_ip cargs)), port = p\<rparr> hint g =
      Some (cid', g2) \<and>
    (\<forall>dg. addressed_to (cid_bytes cid') dg \<longrightarrow> check aes sauth dg (V4 (src_of (local_ip cargs))) = Some (Ok ())) \<and>
    generate_cid_for cid_new rng aes (cid_generator (ep_config cep) ()) 
      \<lparr>ip = V4 (src_of sip), port = p\<rparr> hint g =
      Some (cid'', g3) \<and>
    (\<forall>dg. addressed_to (cid_bytes cid'') dg \<longrightarrow> check aes cauth dg (V4 (src_of sip)) = Some (Ok ()))"
proof -
  obtain sip where s: "ip (listen sargs) = V4 sip" "sip \<noteq> UNSPECIFIED"
    "cid_generator (ep_config sep) () = AuthCidGenerator_new ClientToServer sip"
    "authenticator (ep_socket sep) = Some (Authenticator_new ClientToServer sip)"
    using server_setup_Ok [OF assms(1)] assms(3) by metis
  obtain cfg where c: "cid_generator (ep_config cep) () = AuthCidGenerator_new ServerToClient (local_ip cargs)"
    "authenticator (ep_socket cep) = Some (Authenticator_new ServerToClient (local_ip cargs))"
    "ep_default_client cep = Some cfg"
    "dst_cid_provider cfg = Some (initial_dst_cid_provider cid_new rng aes \<lparr>client = local_ip cargs, server = sip\<rparr>)"
    using client_setup_Ok [OF assms(2)] assms(4) s(1) by (metis IpAddr.inject(1))
  obtain t n g1 where t: "initial_dst_cid_provider cid_new rng aes \<lparr>client = local_ip cargs, server = sip\<rparr> g =
      Some (cid_new t, g1)" "length t = 20" "assemble aes ClientToServer n (local_ip cargs) sip = Some t"
    using initial_dst_cid_total [of cid_new rng aes "\<lparr>client = local_ip cargs, server = sip\<rparr>" g] by auto
  then have "\<forall>dg. addressed_to (cid_bytes (cid_new t)) dg \<longrightarrow>
      check aes (Authenticator_new ClientToServer sip) dg (V4 (local_ip cargs)) = Some (Ok ())"
    using assms(7) tok.issued_accepted [OF t(3)]
    by (auto simp: cid_faithful_def check_addressed Authenticator_new_def)
  moreover have "src_of (local_ip cargs) = local_ip cargs" "src_of sip = sip"
    using assms(5,6) s(2) by (simp_all add: bound_source_kept_def)
  ultimately show ?thesis
    using s c t(1) generated_cid_accepted [OF assms(7), of rng aes ClientToServer sip "local_ip cargs" p hint g]
      generated_cid_accepted [OF assms(7), of rng aes ServerToClient "local_ip cargs" sip p hint g]
    by simp
qed

lemma ex_client_setup:
  "\<exists>ep ps' e'. client_setup ex_tls ex_host cid_new rng aes (ex_client_args\<lparr>local_ip := a\<rparr>)
     \<lparr>install_done = False, provider = None\<rparr> 5 = (Some (Ok ep), ps', e')"
  by (simp add: client_setup_def ex_client_args_def ex_tls_def ex_host_def client_config_def
      transport_config_def PacketSocket_bind_def client_endpoint_def Let_def consts_simps)

theorem connection_passes_both_filters_witness:
  "\<exists>(sep :: (unit, bytes list, nat, unit, unit) Endpoint)
     (cep :: (unit, bytes list, nat, nat \<Rightarrow> (bytes \<times> nat) option, unit) Endpoint) cauth cid g.
     authenticator (ep_socket sep) = Some (Authenticator_new ClientToServer LOCALHOST) \<and>
     authenticator (ep_socket cep) = Some cauth \<and>
     generate_cid_for id (\<lambda>n g. (replicate n (of_nat g), Suc g)) (\<lambda>k m. m) (cid_generator (ep_config cep) ())
       \<lparr>ip = V4 LOCALHOST, port = 4433\<rparr> None 0 = Some (cid, g) \<and>
     (\<forall>dg. addressed_to (id cid) dg \<longrightarrow> check (\<lambda>k m. m) cauth dg (V4 LOCALHOST) = Some (Ok ()))"
proof -
  obtain sep :: "(unit, bytes list, nat, unit, unit) Endpoint" and ps' e'
    where s: "server_setup ex_tls1 ex_host1 ex_server_args \<lparr>install_done = False, provider = None\<rparr> 5 =
      (Some (Ok sep), ps', e')"
    using ex_server_setup by blast
  obtain cep :: "(unit, bytes list, nat, nat \<Rightarrow> (bytes \<times> nat) option, unit) Endpoint" and cps' ce'
    where c: "client_setup ex_tls ex_host id (\<lambda>n g. (replicate n (of_nat g), Suc g)) (\<lambda>k m. m)
      (ex_client_args\<lparr>local_ip := LOCALHOST\<rparr>) \<lparr>install_done = False, provider = None\<rparr> 5 = (Some (Ok cep), cps', ce')"
    using ex_client_setup by blast
  have args: "\<not> no_dcid_validation ex_server_args" "ip (listen ex_server_args) = V4 LOCALHOST"
    "ip (server_addr (ex_client_args\<lparr>local_ip := LOCALHOST\<rparr>)) = ip (listen ex_server_args)"
    "local_ip (ex_client_args\<lparr>local_ip := LOCALHOST\<rparr>) \<noteq> UNSPECIFIED"
    by (simp_all add: ex_server_args_def ex_client_args_def LOCALHOST_def UNSPECIFIED_def)
  have "authenticator (ep_socket sep) = Some (Authenticator_new ClientToServer LOCALHOST)"
    using server_setup_Ok [OF s] args(1,2) by (metis IpAddr.inject(1))
  moreover have "cid_faithful id id" "bound_source_kept id"
    by (simp_all add: cid_faithful_def bound_source_kept_def)
  ultimately show ?thesis
    using connection_passes_both_filters [OF s c args(1,3,4), of id id 0 4433 None] args(2) by auto
qed

text \<open>C24: The server refuses an IPv6 or wildcard listen address before it does anything else.
  When it comes up on any other address, its counters are zero and it issues connection IDs for
  the client-to-server direction and its own address. From then on, however its socket is polled
  and used, every datagram it hands over passes the check for that same direction and address,
  unless validation is switched off by the flag, and then it rejects nothing.\<close>

theorem server_setup_checks_what_it_issues:
  "(case ip (listen args) of
      V6 a \<Rightarrow> server_main tls host quic args ps e = Some (Some (Err (AddressNotIpv4 (V6 a))), ps, e)
    | V4 a \<Rightarrow>
        (a = UNSPECIFIED \<longrightarrow> server_main tls host quic args ps e = Some (Some (Err AddressWildcard), ps, e)) \<and>
        (\<forall>ep ps' e'. server_setup tls host args ps e = (Some (Ok ep), ps', e') \<longrightarrow>
           a \<noteq> UNSPECIFIED \<and> counters (ep_socket ep) = Counters_default \<and>
           cid_generator (ep_config ep) () = AuthCidGenerator_new ClientToServer a \<and>
           (\<forall>aes (dflt :: 'm RecvMeta_scheme) ds inner. recv_contract (udp host) \<longrightarrow>
              (socket_step (udp host) aes dflt)\<^sup>*\<^sup>* ([], ep_socket ep) (ds, inner) \<longrightarrow>
              (if no_dcid_validation args then rejected (counts inner) = 0
               else \<forall>(dg, addr) \<in> set ds.
                 check aes (Authenticator_new ClientToServer a) dg (ip addr) = Some (Ok ())))))"
proof (cases "ip (listen args)")
  case (V4 a)
  have wild: "server_main tls host quic args ps e = Some (Some (Err AddressWildcard), ps, e)" if "a = UNSPECIFIED"
    using that V4 by (simp add: server_main_def server_setup_def is_unspecified_iff)
  have up: "a \<noteq> UNSPECIFIED \<and> counters (ep_socket ep) = Counters_default \<and>
      cid_generator (ep_config ep) () = AuthCidGenerator_new ClientToServer a"
    if "server_setup tls host args ps e = (Some (Ok ep), ps', e')" for ep ps' e'
    using server_setup_Ok [OF that] V4 by (metis IpAddr.inject(1))
  show ?thesis
    unfolding V4 IpAddr.case
  proof (intro conjI allI impI)
    fix ep ps' e' aes ds inner and dflt :: "'m RecvMeta_scheme"
    assume "server_setup tls host args ps e = (Some (Ok ep), ps', e')" and "recv_contract (udp host)"
      and "(socket_step (udp host) aes dflt)\<^sup>*\<^sup>* ([], ep_socket ep) (ds, inner)"
    then show "if no_dcid_validation args then rejected (counts inner) = 0
      else \<forall>(dg, addr) \<in> set ds. check aes (Authenticator_new ClientToServer a) dg (ip addr) = Some (Ok ())"
      by (rule server_socket_life [OF _ V4])
  qed (use wild up in blast)+
qed (simp add: server_main_def server_setup_def)

text \<open>A host whose socket has the three datagrams of \<open>ex_inner\<close> queued.\<close>

definition ex_busy_host :: "(nat, unit, queue_env, unit, unit, bytes list, nat, unit, nat) host_ops" where
  "ex_busy_host =
     \<lparr>std_bind = \<lambda>a. Ok (), set_nonblocking = Ok, from_std = \<lambda>_. Ok (io ex_inner), udp = queue_ops,
      new_endpoint = \<lambda>c s i. Ok (), endpoint_default = \<lparr>cid_generator = \<lambda>_. AuthCidGenerator_new ServerToClient UNSPECIFIED\<rparr>,
      fs_write = \<lambda>f c e. (Ok (), e), fs_read = \<lambda>f e. (Ok 5, e),
      op_ctrl_c = \<lambda>e. (if e < 5 then Some (Ok ()) else None, e), op_close = id, op_wait_idle = Pair\<rparr>"

lemma ex_busy_server:
  "\<exists>ep ps'. server_setup ex_tls1 ex_busy_host ex_server_args \<lparr>install_done = False, provider = None\<rparr> 5 =
     (Some (Ok ep), ps', 7) \<and> ep_socket ep = ex_inner"
  by (simp add: server_setup_def ex_server_args_def ex_tls_def ex_busy_host_def self_signed_server_config_def
      transport_config_def PacketSocket_bind_def local_addr_def server_endpoint_def is_unspecified_iff
      LOCALHOST_def UNSPECIFIED_def Let_def queue_ops_def ex_inner_def)

theorem server_setup_checks_what_it_issues_witness:
  "\<exists>(ep :: (unit, bytes list, nat, unit, queue_env) Endpoint) ds inner.
     cid_generator (ep_config ep) () = AuthCidGenerator_new ClientToServer LOCALHOST \<and>
     (socket_step queue_ops zero_aes ex_meta)\<^sup>*\<^sup>* ([], ep_socket ep) (ds, inner) \<and> length ds = 1 \<and>
     (\<forall>(dg, addr) \<in> set ds. check zero_aes (Authenticator_new ClientToServer LOCALHOST) dg (ip addr) = Some (Ok ()))"
proof -
  obtain ep ps' where s: "server_setup ex_tls1 ex_busy_host ex_server_args \<lparr>install_done = False, provider = None\<rparr> 5 =
     (Some (Ok ep), ps', 7)" "ep_socket ep = ex_inner"
    using ex_busy_server by blast
  obtain ds inner where run: "(socket_step queue_ops zero_aes ex_meta)\<^sup>*\<^sup>* ([], ep_socket ep) (ds, inner)" "length ds = 1"
    by (rule that [OF r_into_rtranclp [where r = "socket_step queue_ops zero_aes ex_meta",
          OF socket_step.polled [OF ex_poll_recv, of "[]", folded s(2)]]]) (simp add: slots_def)
  have "ip (listen ex_server_args) = V4 LOCALHOST" "\<not> no_dcid_validation ex_server_args"
    "recv_contract (udp ex_busy_host)" "udp ex_busy_host = queue_ops"
    by (simp_all add: ex_server_args_def ex_busy_host_def queue_contract)
  then show ?thesis
    using s(1) run server_setup_checks_what_it_issues [where args = ex_server_args and tls = ex_tls1 and host = ex_busy_host
        and quic = ex_quic and ps = "\<lparr>install_done = False, provider = None\<rparr>" and e = 5 and 'm = unit]
    by (intro exI [of _ ep] exI [of _ ds] exI [of _ inner]) fastforce
qed

text \<open>C38: A wildcard client is not refused but dropped. The server refuses the wildcard as its own
  address in every environment; the client's set-up never gives that error, whatever its arguments.
  If it comes up with the wildcard, the first destination ID it picks is bound to the source
  0.0.0.0: at the server, a datagram addressed to it passes from the source the system chose only
  if the tags for the two sources coincide, and is dropped as \<open>BadTag\<close> otherwise.\<close>

theorem wildcard_client_is_dropped:
  assumes "client_setup tls host cid_new rng aes args ps e = (Some (Ok ep), ps', e')"
    and "local_ip args = UNSPECIFIED" and "ip (server_addr args) = V4 sip"
    and "cid_faithful cid_new cid_bytes"
  shows "(ip (listen sargs) = V4 UNSPECIFIED \<longrightarrow>
      server_setup stls shost sargs sps se = (Some (Err AddressWildcard), sps, se)) \<and>
    fst (client_setup tls host cid_new rng aes args' cps ce) \<noteq> Some (Err AddressWildcard) \<and>
    (\<exists>cfg provider cid g'. ep_default_client ep = Some cfg \<and> dst_cid_provider cfg = Some provider \<and>
      provider g = Some (cid, g') \<and>
      (\<forall>dg. addressed_to (cid_bytes cid) dg \<longrightarrow>
         check aes (Authenticator_new ClientToServer sip) dg (V4 (src_of UNSPECIFIED)) =
           (let nonce = take 8 (drop 2 (cid_bytes cid)) in
            Some (if trunc80 aes F_AB (tag_message nonce (src_of UNSPECIFIED) sip) =
                     trunc80 aes F_AB (tag_message nonce UNSPECIFIED sip)
                  then Ok () else Err BadTag))))"
proof (intro conjI)
  obtain cfg where c: "ep_default_client ep = Some cfg"
    "dst_cid_provider cfg = Some (initial_dst_cid_provider cid_new rng aes \<lparr>client = UNSPECIFIED, server = sip\<rparr>)"
    using client_setup_Ok [OF assms(1)] assms(2,3) by (metis IpAddr.inject(1))
  obtain t n g' where t: "initial_dst_cid_provider cid_new rng aes \<lparr>client = UNSPECIFIED, server = sip\<rparr> g =
      Some (cid_new t, g')" "length t = 20" "assemble aes ClientToServer n UNSPECIFIED sip = Some t"
    using initial_dst_cid_total [of cid_new rng aes "\<lparr>client = UNSPECIFIED, server = sip\<rparr>" g] by auto
  have "cid_bytes (cid_new t) = t" using assms(4) t(2) by (simp add: cid_faithful_def)
  then have "check aes (Authenticator_new ClientToServer sip) dg (V4 src) =
      (let nonce = take 8 (drop 2 t) in
       Some (if trunc80 aes F_AB (tag_message nonce src sip) = trunc80 aes F_AB (tag_message nonce UNSPECIFIED sip)
             then Ok () else Err BadTag))"
    if "addressed_to (cid_bytes (cid_new t)) dg" for dg src
    using that t(3)
    by (auto simp: check_addressed Authenticator_new_def assemble_Some_iff verify_token_format
        token_format_fields)
  then show "\<exists>cfg provider cid g'. ep_default_client ep = Some cfg \<and> dst_cid_provider cfg = Some provider \<and>
      provider g = Some (cid, g') \<and>
      (\<forall>dg. addressed_to (cid_bytes cid) dg \<longrightarrow>
         check aes (Authenticator_new ClientToServer sip) dg (V4 (src_of UNSPECIFIED)) =
           (let nonce = take 8 (drop 2 (cid_bytes cid)) in
            Some (if trunc80 aes F_AB (tag_message nonce (src_of UNSPECIFIED) sip) =
                     trunc80 aes F_AB (tag_message nonce UNSPECIFIED sip)
                  then Ok () else Err BadTag)))"
    using c t(1) \<open>cid_bytes (cid_new t) = t\<close> by metis
qed (simp_all add: server_setup_def is_unspecified_iff client_setup_no_wildcard)

theorem wildcard_client_is_dropped_witness:
  "\<exists>(ep :: (unit, bytes list, nat, nat \<Rightarrow> (bytes \<times> nat) option, unit) Endpoint) ps' e' cfg provider cid g'.
     client_setup ex_tls ex_host id (\<lambda>n g. (replicate n (of_nat g), Suc g)) (\<lambda>k. rev)
       (ex_client_args\<lparr>local_ip := UNSPECIFIED\<rparr>) \<lparr>install_done = False, provider = None\<rparr> 5 = (Some (Ok ep), ps', e') \<and>
     ep_default_client ep = Some cfg \<and> dst_cid_provider cfg = Some provider \<and> provider 0 = Some (cid, g') \<and>
     (\<forall>dg. addressed_to cid dg \<longrightarrow>
        check (\<lambda>k. rev) (Authenticator_new ClientToServer LOCALHOST) dg (V4 LOCALHOST) = Some (Err BadTag))"
proof -
  obtain ep :: "(unit, bytes list, nat, nat \<Rightarrow> (bytes \<times> nat) option, unit) Endpoint" and ps' e'
    where c: "client_setup ex_tls ex_host id (\<lambda>n g. (replicate n (of_nat g), Suc g)) (\<lambda>k. rev)
      (ex_client_args\<lparr>local_ip := UNSPECIFIED\<rparr>) \<lparr>install_done = False, provider = None\<rparr> 5 = (Some (Ok ep), ps', e')"
    using ex_client_setup by blast
  have "local_ip (ex_client_args\<lparr>local_ip := UNSPECIFIED\<rparr>) = UNSPECIFIED"
    "ip (server_addr (ex_client_args\<lparr>local_ip := UNSPECIFIED\<rparr>)) = V4 LOCALHOST" "cid_faithful id id"
    by (simp_all add: ex_client_args_def cid_faithful_def)
  from wildcard_client_is_dropped [OF c this, where src_of = "\<lambda>a. LOCALHOST" and g = 0, THEN conjunct2, THEN conjunct2]
  obtain cfg provider cid g' where p: "ep_default_client ep = Some cfg" "dst_cid_provider cfg = Some provider"
    "provider 0 = Some (cid, g')"
    and dropped: "\<forall>dg. addressed_to (id cid) dg \<longrightarrow>
      check (\<lambda>k. rev) (Authenticator_new ClientToServer LOCALHOST) dg (V4 LOCALHOST) =
        (let nonce = take 8 (drop 2 (id cid)) in
         Some (if trunc80 (\<lambda>k. rev) F_AB (tag_message nonce LOCALHOST LOCALHOST) =
                  trunc80 (\<lambda>k. rev) F_AB (tag_message nonce UNSPECIFIED LOCALHOST)
               then Ok () else Err BadTag))"
    by (elim exE conjE) (rule that)
  have "trunc80 (\<lambda>k. rev) F_AB (tag_message nonce LOCALHOST LOCALHOST) \<noteq>
      trunc80 (\<lambda>k. rev) F_AB (tag_message nonce UNSPECIFIED LOCALHOST)" for nonce
    by (simp add: trunc80_def tag_message_def encrypt_block_def overwrite_def LOCALHOST_def UNSPECIFIED_def)
  then have "\<forall>dg. addressed_to cid dg \<longrightarrow>
      check (\<lambda>k. rev) (Authenticator_new ClientToServer LOCALHOST) dg (V4 LOCALHOST) = Some (Err BadTag)"
    using dropped by (simp add: Let_def)
  with c p show ?thesis by blast
qed

end
